theory Spec2Isabelle
  imports Main "HOL-Library.Stream" "HOL-Library.Signed_Division" "HOL-Library.Monad_Syntax"
begin

section \<open>Wave Function Collapse component: data model\<close>

text \<open>
  The development embeds \<^verbatim>\<open>UWaveFunctionCollapseComponent\<close>
  (\<^verbatim>\<open>WaveFunctionCollapseComponent.h/.cpp\<close>).

  \<^item> \<^verbatim>\<open>int32\<close> values (cell indices, tile indices, counts, grid dimensions) are
    \<open>int\<close>. The model is exact as long as no \<^verbatim>\<open>int32\<close> expression of the source
    overflows; where a property depends on the range (the sentinel of the entropy scan,
    the iteration cap), the bound is a premise.
  \<^item> \<^verbatim>\<open>TArray\<close> is a list. \<^verbatim>\<open>operator[]\<close> with an index out of range, and a division
    by zero, are faults: functions that can reach one return \<open>None\<close> there.
  \<^item> \<^verbatim>\<open>TMap<ETileEdgeType, ETileEdgeType>\<close> is a partial map; iteration over its pairs
    visits the keys in the order of the enumeration.
  \<^item> \<^verbatim>\<open>UE_LOG\<close> output is a list of messages, returned by the functions that log.
  \<^item> The mesh pointer of a tile, \<^verbatim>\<open>TileSize\<close> and \<^verbatim>\<open>SpawnTileMeshes\<close> concern rendering
    only; they never touch the grid and are left out.
\<close>

datatype ETileEdgeType = Type_A | Type_B | Type_C | Type_D

record FTileType =
  NorthEdge :: ETileEdgeType
  EastEdge :: ETileEdgeType
  SouthEdge :: ETileEdgeType
  WestEdge :: ETileEdgeType

record FCell =
  PossibleStates :: "int list"
  bIsCollapsed :: bool
  FinalState :: int

record wfc =
  GridWidth :: int
  GridHeight :: int
  TileTypes :: "FTileType list"
  CompatibleEdges :: "ETileEdgeType \<rightharpoonup> ETileEdgeType"
  Grid :: "FCell list"

text \<open>The default-constructed cell (\<^verbatim>\<open>FCell()\<close>).\<close>

definition FCell_default :: FCell where
  "FCell_default = \<lparr>PossibleStates = [], bIsCollapsed = False, FinalState = - 1\<rparr>"

text \<open>The largest \<^verbatim>\<open>int32\<close>, \<^verbatim>\<open>TNumericLimits<int32>::Max()\<close>.\<close>

definition INT32_MAX :: int where
  "INT32_MAX = 2147483647"

datatype Direction = North | East | South | West

datatype log_msg =
    NoTileTypes
  | NoRule nat Direction
  | NotSymmetric ETileEdgeType ETileEdgeType "ETileEdgeType option"
  | InvalidRules
  | MaxIterationsReached int

text \<open>
  The random source is the sequence of raw values the engine's generator yields from its
  current state on; drawing consumes the head.
\<close>

type_synonym rand = "nat stream"

text \<open>
  Modelled from the spec: \<^verbatim>\<open>FMath::RandRange\<close> is engine code that is not part of the
  repository. The spec has collapse pick ``one candidate uniformly at random from the
  candidate set'', so the draw lies in the closed range from \<open>MinVal\<close> to \<open>MaxVal\<close>;
  it is \<open>MinVal\<close> when the range is empty.
\<close>

definition RandRange :: "int \<Rightarrow> int \<Rightarrow> rand \<Rightarrow> int \<times> rand" where
  "RandRange MinVal MaxVal rng =
     (if 0 < MaxVal - MinVal + 1 then MinVal + int (shd rng mod nat (MaxVal - MinVal + 1))
      else MinVal,
      stl rng)"

section \<open>Operations\<close>

subsection \<open>\<^verbatim>\<open>TArray\<close> helpers\<close>

definition AddUnique :: "int list \<Rightarrow> int \<Rightarrow> int list" where
  "AddUnique xs x = (if x \<in> set xs then xs else xs @ [x])"

definition in_range :: "int \<Rightarrow> 'a list \<Rightarrow> bool" where
  "in_range i xs = (0 \<le> i \<and> i < int (length xs))"

subsection \<open>\<^verbatim>\<open>FindCellWithLowestEntropy\<close>\<close>

text \<open>
  The loop over \<open>i = 0 ..< Grid.Num()\<close>, on the cells from \<open>i\<close> on, with the pair
  (\<^verbatim>\<open>LowestEntropyIndex\<close>, \<^verbatim>\<open>LowestEntropy\<close>).
\<close>

fun entropy_scan :: "FCell list \<Rightarrow> int \<Rightarrow> int \<times> int \<Rightarrow> int \<times> int" where
  "entropy_scan [] i acc = acc"
| "entropy_scan (Cell # rest) i (LowestEntropyIndex, LowestEntropy) =
     entropy_scan rest (i + 1)
       (if \<not> bIsCollapsed Cell \<and> 0 < length (PossibleStates Cell)
           \<and> int (length (PossibleStates Cell)) < LowestEntropy
        then (i, int (length (PossibleStates Cell)))
        else (LowestEntropyIndex, LowestEntropy))"

definition FindCellWithLowestEntropy :: "wfc \<Rightarrow> int" where
  "FindCellWithLowestEntropy c = fst (entropy_scan (Grid c) 0 (- 1, INT32_MAX))"

subsection \<open>\<^verbatim>\<open>CollapseCell\<close>\<close>

definition CollapseCell :: "int \<Rightarrow> rand \<Rightarrow> wfc \<Rightarrow> rand \<times> wfc" where
  "CollapseCell CellIndex rng c =
     (if CellIndex < 0 \<or> int (length (Grid c)) \<le> CellIndex then (rng, c)
      else
        let Cell = Grid c ! nat CellIndex in
        if bIsCollapsed Cell \<or> length (PossibleStates Cell) = 0 then (rng, c)
        else
          let (RandomIndex, rng') = RandRange 0 (int (length (PossibleStates Cell)) - 1) rng;
              ChosenState = PossibleStates Cell ! nat RandomIndex
          in (rng', c\<lparr>Grid := (Grid c)[nat CellIndex :=
                Cell\<lparr>PossibleStates := [ChosenState], FinalState := ChosenState,
                     bIsCollapsed := True\<rparr>]\<rparr>))"

subsection \<open>\<^verbatim>\<open>UpdateCellPossibilities\<close>\<close>

definition UpdateCellPossibilities :: "int \<Rightarrow> int list \<Rightarrow> wfc \<Rightarrow> bool \<times> wfc" where
  "UpdateCellPossibilities CellIndex AllowedStates c =
     (if CellIndex < 0 \<or> int (length (Grid c)) \<le> CellIndex then (False, c)
      else
        let Cell = Grid c ! nat CellIndex in
        if bIsCollapsed Cell then (False, c)
        else
          let PreviousCount = length (PossibleStates Cell);
              NewPossibleStates = filter (\<lambda>State. State \<in> set AllowedStates) (PossibleStates Cell);
              Cell' =
                (if 0 < length NewPossibleStates then
                   (if length NewPossibleStates = 1
                    then Cell\<lparr>PossibleStates := NewPossibleStates,
                              FinalState := NewPossibleStates ! 0, bIsCollapsed := True\<rparr>
                    else Cell\<lparr>PossibleStates := NewPossibleStates\<rparr>)
                 else Cell)
          in (PreviousCount \<noteq> length (PossibleStates Cell'),
              c\<lparr>Grid := (Grid c)[nat CellIndex := Cell']\<rparr>))"

subsection \<open>\<^verbatim>\<open>AreEdgesCompatible\<close>, \<^verbatim>\<open>IndexToXY\<close>, \<^verbatim>\<open>XYToIndex\<close>, \<^verbatim>\<open>IsGridFullyCollapsed\<close>\<close>

definition AreEdgesCompatible :: "wfc \<Rightarrow> ETileEdgeType \<Rightarrow> ETileEdgeType \<Rightarrow> bool" where
  "AreEdgesCompatible c Edge1 Edge2 =
     (case CompatibleEdges c Edge1 of Some CompatibleEdge \<Rightarrow> CompatibleEdge = Edge2
      | None \<Rightarrow> False)"

text \<open>C++ \<^verbatim>\<open>%\<close> and \<^verbatim>\<open>/\<close> truncate towards zero; a zero divisor is a fault.\<close>

definition IndexToXY :: "wfc \<Rightarrow> int \<Rightarrow> (int \<times> int) option" where
  "IndexToXY c Index =
     (if GridWidth c = 0 then None
      else Some (Index smod GridWidth c, Index sdiv GridWidth c))"

definition XYToIndex :: "wfc \<Rightarrow> int \<Rightarrow> int \<Rightarrow> int" where
  "XYToIndex c X Y = Y * GridWidth c + X"

definition IsGridFullyCollapsed :: "wfc \<Rightarrow> bool" where
  "IsGridFullyCollapsed c = list_all bIsCollapsed (Grid c)"

subsection \<open>\<^verbatim>\<open>PropagateConstraints\<close>\<close>

text \<open>
  The inner loop \<^verbatim>\<open>for (i = 0; i < TileTypes.Num(); ++i)\<close>: every tile whose edge
  \<open>PotentialEdge\<close> is compatible with \<open>CurrentEdge\<close> is added once to the allowed states.
\<close>

definition CompatibleTiles ::
  "wfc \<Rightarrow> ETileEdgeType \<Rightarrow> (FTileType \<Rightarrow> ETileEdgeType) \<Rightarrow> int list \<Rightarrow> int list" where
  "CompatibleTiles c CurrentEdge PotentialEdge AllowedStates =
     foldl (\<lambda>Allowed i.
              if AreEdgesCompatible c CurrentEdge (PotentialEdge (TileTypes c ! i))
              then AddUnique Allowed (int i) else Allowed)
       AllowedStates [0..<length (TileTypes c)]"

text \<open>
  The outer loop \<^verbatim>\<open>for (int32 StateIndex : CurrentCell.PossibleStates)\<close>. The source has
  one copy per direction, differing in the edge read from the current tile and the edge
  read from the potential neighbour; \<^verbatim>\<open>TileTypes[StateIndex]\<close> is range-checked.
\<close>

fun AllowedStatesFor ::
  "wfc \<Rightarrow> (FTileType \<Rightarrow> ETileEdgeType) \<Rightarrow> (FTileType \<Rightarrow> ETileEdgeType) \<Rightarrow> int list \<Rightarrow> int list
     \<Rightarrow> int list option" where
  "AllowedStatesFor c CurrentEdge PotentialEdge [] AllowedStates = Some AllowedStates"
| "AllowedStatesFor c CurrentEdge PotentialEdge (StateIndex # rest) AllowedStates =
     (if StateIndex < 0 \<or> int (length (TileTypes c)) \<le> StateIndex then None
      else AllowedStatesFor c CurrentEdge PotentialEdge rest
             (CompatibleTiles c (CurrentEdge (TileTypes c ! nat StateIndex)) PotentialEdge
                AllowedStates))"

text \<open>
  One of the four blocks ``Process North/East/South/West neighbor''. \<^verbatim>\<open>CurrentCell\<close> is a
  reference into the grid, so its candidates are read from the grid as it is when the block
  runs.
\<close>

definition ProcessNeighbor ::
  "bool \<Rightarrow> int \<Rightarrow> int \<Rightarrow> (FTileType \<Rightarrow> ETileEdgeType) \<Rightarrow> (FTileType \<Rightarrow> ETileEdgeType)
     \<Rightarrow> int list \<times> wfc \<Rightarrow> (int list \<times> wfc) option" where
  "ProcessNeighbor HasNeighbor CurrentCellIndex NeighborIndex CurrentEdge PotentialEdge s =
     (case s of (PropagationQueue, c) \<Rightarrow>
        if \<not> HasNeighbor then Some (PropagationQueue, c)
        else
          (case AllowedStatesFor c CurrentEdge PotentialEdge
                  (PossibleStates (Grid c ! nat CurrentCellIndex)) [] of
             None \<Rightarrow> None
           | Some AllowedStates \<Rightarrow>
               (case UpdateCellPossibilities NeighborIndex AllowedStates c of
                  (Changed, c') \<Rightarrow>
                    Some (if Changed then AddUnique PropagationQueue NeighborIndex
                          else PropagationQueue, c'))))"

text \<open>The body of the \<^verbatim>\<open>while\<close> loop, for the index just taken from the front of the queue.\<close>

definition PropagateStep :: "int \<Rightarrow> int list \<Rightarrow> wfc \<Rightarrow> (int list \<times> wfc) option" where
  "PropagateStep CurrentCellIndex PropagationQueue c =
     (case IndexToXY c CurrentCellIndex of
        None \<Rightarrow> None
      | Some (X, Y) \<Rightarrow>
          if \<not> in_range CurrentCellIndex (Grid c) then None
          else do {
            s1 \<leftarrow> ProcessNeighbor (0 < Y) CurrentCellIndex (XYToIndex c X (Y - 1))
                    NorthEdge SouthEdge (PropagationQueue, c);
            s2 \<leftarrow> ProcessNeighbor (X < GridWidth c - 1) CurrentCellIndex (XYToIndex c (X + 1) Y)
                    EastEdge WestEdge s1;
            s3 \<leftarrow> ProcessNeighbor (Y < GridHeight c - 1) CurrentCellIndex (XYToIndex c X (Y + 1))
                    SouthEdge NorthEdge s2;
            ProcessNeighbor (0 < X) CurrentCellIndex (XYToIndex c (X - 1) Y)
              WestEdge EastEdge s3
          })"

text \<open>The sum of the candidate counts of all cells.\<close>

definition total_states :: "wfc \<Rightarrow> nat" where
  "total_states c = sum_list (map (\<lambda>Cell. length (PossibleStates Cell)) (Grid c))"

text \<open>
  What \<^verbatim>\<open>UpdateCellPossibilities\<close> leaves in a cell that is in range and not collapsed,
  as one function of the allowed states and the cell.
\<close>

definition NarrowedCell :: "int list \<Rightarrow> FCell \<Rightarrow> FCell" where
  "NarrowedCell A Cell = (let New = filter (\<lambda>s. s \<in> set A) (PossibleStates Cell) in
     if New = [] then Cell
     else if length New = 1 then Cell\<lparr>PossibleStates := New, FinalState := New ! 0, bIsCollapsed := True\<rparr>
     else Cell\<lparr>PossibleStates := New\<rparr>)"

subsection \<open>Facts about \<^verbatim>\<open>UpdateCellPossibilities\<close> used for termination\<close>

lemma Update_out: "\<not> in_range i (Grid c) \<Longrightarrow> UpdateCellPossibilities i A c = (False, c)"
  by (auto simp: UpdateCellPossibilities_def in_range_def)

lemma Update_collapsed:
  "in_range i (Grid c) \<Longrightarrow> bIsCollapsed (Grid c ! nat i) \<Longrightarrow> UpdateCellPossibilities i A c = (False, c)"
  by (simp add: UpdateCellPossibilities_def in_range_def)

lemma Update_live:
  "in_range i (Grid c) \<Longrightarrow> \<not> bIsCollapsed (Grid c ! nat i) \<Longrightarrow>
   UpdateCellPossibilities i A c =
     (length (PossibleStates (NarrowedCell A (Grid c ! nat i))) \<noteq> length (PossibleStates (Grid c ! nat i)),
      c\<lparr>Grid := (Grid c)[nat i := NarrowedCell A (Grid c ! nat i)]\<rparr>)"
  by (auto simp: UpdateCellPossibilities_def in_range_def Let_def NarrowedCell_def)

lemma NarrowedCell_length: "length (PossibleStates (NarrowedCell A Cell)) \<le> length (PossibleStates Cell)"
  using length_filter_le[of "\<lambda>s. s \<in> set A" "PossibleStates Cell"]
  by (auto simp: NarrowedCell_def Let_def simp del: length_filter_le)

lemma total_states_update:
  "k < length (Grid c) \<Longrightarrow>
   total_states (c\<lparr>Grid := (Grid c)[k := Cell']\<rparr>) + length (PossibleStates (Grid c ! k))
     = total_states c + length (PossibleStates Cell')"
proof -
  assume k: "k < length (Grid c)"
  let ?ns = "map (\<lambda>Cell. length (PossibleStates Cell)) (Grid c)"
  have "?ns ! k \<le> sum_list ?ns" using k by (intro elem_le_sum_list) simp
  then show ?thesis using k
    by (simp add: total_states_def map_update sum_list_update)
qed

lemma Update_total:
  assumes "UpdateCellPossibilities i A c = (b, c')"
  shows "total_states c' + (if b then 1 else 0) \<le> total_states c"
proof (cases "in_range i (Grid c) \<and> \<not> bIsCollapsed (Grid c ! nat i)")
  case False
  then have "b = False \<and> c' = c" using assms Update_out[of i c A] Update_collapsed[of i c A] by auto
  then show ?thesis by simp
next
  case True
  then have k: "nat i < length (Grid c)" by (auto simp: in_range_def)
  from True assms have b: "b = (length (PossibleStates (NarrowedCell A (Grid c ! nat i))) \<noteq> length (PossibleStates (Grid c ! nat i)))"
    and c': "c' = c\<lparr>Grid := (Grid c)[nat i := NarrowedCell A (Grid c ! nat i)]\<rparr>"
    by (simp_all add: Update_live)
  show ?thesis
    using total_states_update[OF k, of "NarrowedCell A (Grid c ! nat i)"] NarrowedCell_length[of A "Grid c ! nat i"] b c'
    by (auto split: if_splits)
qed

lemma AddUnique_length: "length (AddUnique xs x) \<le> Suc (length xs)"
  by (simp add: AddUnique_def)

lemma ProcessNeighbor_measure:
  assumes "ProcessNeighbor h cur n e1 e2 (Q, c) = Some (Q', c')"
  shows "total_states c' + length Q' \<le> total_states c + length Q"
proof (cases h)
  case False
  with assms show ?thesis by (simp add: ProcessNeighbor_def)
next
  case True
  with assms obtain A b where
    u: "UpdateCellPossibilities n A c = (b, c')" and
    q: "Q' = (if b then AddUnique Q n else Q)"
    by (auto simp: ProcessNeighbor_def split: option.splits prod.splits)
  from Update_total[OF u] AddUnique_length[of Q n] q show ?thesis
    by (auto split: if_splits)
qed

lemma ProcessNeighbor_preserves:
  assumes step: "\<And>i A c b c'. P c \<Longrightarrow> UpdateCellPossibilities i A c = (b, c') \<Longrightarrow> P c'"
    and "P c" and "ProcessNeighbor h cur n e1 e2 (Q, c) = Some (Q', c')"
  shows "P c'"
proof (cases h)
  case False
  with assms(2,3) show ?thesis by (simp add: ProcessNeighbor_def)
next
  case True
  with assms(3) obtain A b where "UpdateCellPossibilities n A c = (b, c')"
    by (auto simp: ProcessNeighbor_def split: option.splits prod.splits)
  with step assms(2) show ?thesis by blast
qed

lemma PropagateStep_chain:
  assumes "PropagateStep cur Q c = Some (Q', c')"
  obtains X Y Q1 c1 Q2 c2 Q3 c3 where
    "IndexToXY c cur = Some (X, Y)" "in_range cur (Grid c)"
    "ProcessNeighbor (0 < Y) cur (XYToIndex c X (Y - 1)) NorthEdge SouthEdge (Q, c) = Some (Q1, c1)"
    "ProcessNeighbor (X < GridWidth c - 1) cur (XYToIndex c (X + 1) Y) EastEdge WestEdge (Q1, c1) = Some (Q2, c2)"
    "ProcessNeighbor (Y < GridHeight c - 1) cur (XYToIndex c X (Y + 1)) SouthEdge NorthEdge (Q2, c2) = Some (Q3, c3)"
    "ProcessNeighbor (0 < X) cur (XYToIndex c (X - 1) Y) WestEdge EastEdge (Q3, c3) = Some (Q', c')"
  using assms
  by (auto simp: PropagateStep_def split: option.splits if_splits Option.bind_splits)

lemma PropagateStep_measure:
  assumes "PropagateStep cur Q c = Some (Q', c')"
  shows "total_states c' + length Q' \<le> total_states c + length Q"
  using assms
proof (cases rule: PropagateStep_chain)
  case (1 X Y Q1 c1 Q2 c2 Q3 c3)
  from ProcessNeighbor_measure[OF 1(3)] ProcessNeighbor_measure[OF 1(4)]
       ProcessNeighbor_measure[OF 1(5)] ProcessNeighbor_measure[OF 1(6)]
  show ?thesis by linarith
qed

lemma PropagateStep_preserves:
  assumes step: "\<And>i A c b c'. P c \<Longrightarrow> UpdateCellPossibilities i A c = (b, c') \<Longrightarrow> P c'"
    and "P c" and "PropagateStep cur Q c = Some (Q', c')"
  shows "P c'"
  using assms(3)
proof (cases rule: PropagateStep_chain)
  case (1 X Y Q1 c1 Q2 c2 Q3 c3)
  have "P c1" using ProcessNeighbor_preserves[where P = P, OF _ assms(2) 1(3)] step by blast
  then have "P c2" using ProcessNeighbor_preserves[where P = P, OF _ _ 1(4)] step by blast
  then have "P c3" using ProcessNeighbor_preserves[where P = P, OF _ _ 1(5)] step by blast
  then show "P c'" using ProcessNeighbor_preserves[where P = P, OF _ _ 1(6)] step by blast
qed

text \<open>
  The \<^verbatim>\<open>while (PropagationQueue.Num() > 0)\<close> loop. Every index added to the queue comes
  with a strictly smaller candidate count somewhere, so the sum of all candidate counts plus
  the queue length decreases with every iteration.
\<close>

function PropagateLoop :: "int list \<Rightarrow> wfc \<Rightarrow> wfc option" where
  "PropagateLoop [] c = Some c"
| "PropagateLoop (CurrentCellIndex # PropagationQueue) c =
     (case PropagateStep CurrentCellIndex PropagationQueue c of
        None \<Rightarrow> None
      | Some (PropagationQueue', c') \<Rightarrow> PropagateLoop PropagationQueue' c')"
  by pat_completeness auto
termination
proof (relation "measure (\<lambda>(Q, c). total_states c + length Q)")
  show "wf (measure (\<lambda>(Q, c). total_states c + length Q))" by simp
next
  fix CurrentCellIndex PropagationQueue c x2 x y
  assume "PropagateStep CurrentCellIndex PropagationQueue c = Some x2" "(x, y) = x2"
  then have "PropagateStep CurrentCellIndex PropagationQueue c = Some (x, y)" by simp
  from PropagateStep_measure[OF this]
  show "((x, y), CurrentCellIndex # PropagationQueue, c) \<in> measure (\<lambda>(Q, c). total_states c + length Q)"
    by simp
qed

definition PropagateConstraints :: "int \<Rightarrow> wfc \<Rightarrow> wfc option" where
  "PropagateConstraints CellIndex c =
     (if CellIndex < 0 \<or> int (length (Grid c)) \<le> CellIndex then Some c
      else PropagateLoop [CellIndex] c)"

lemma PropagateLoop_preserves:
  assumes step: "\<And>i A c b c'. P c \<Longrightarrow> UpdateCellPossibilities i A c = (b, c') \<Longrightarrow> P c'"
  shows "P c \<Longrightarrow> PropagateLoop Q c = Some c' \<Longrightarrow> P c'"
proof (induction Q c rule: PropagateLoop.induct)
  case (1 c)
  then show ?case by simp
next
  case (2 cur Q c)
  from 2(3) obtain Q1 c1 where s: "PropagateStep cur Q c = Some (Q1, c1)"
    and l: "PropagateLoop Q1 c1 = Some c'"
    by (auto split: option.splits)
  have "P c1" using PropagateStep_preserves[where P = P, OF _ 2(2) s] step by blast
  from 2(1)[OF s refl this l] show ?case .
qed

lemma PropagateConstraints_preserves:
  assumes step: "\<And>i A c b c'. P c \<Longrightarrow> UpdateCellPossibilities i A c = (b, c') \<Longrightarrow> P c'"
    and "P c" and "PropagateConstraints i c = Some c'"
  shows "P c'"
proof (cases "i < 0 \<or> int (length (Grid c)) \<le> i")
  case True
  with assms(2,3) show ?thesis by (simp add: PropagateConstraints_def)
next
  case False
  with assms(3) have "PropagateLoop [i] c = Some c'" by (simp add: PropagateConstraints_def)
  from PropagateLoop_preserves[where P = P, OF _ assms(2) this] step show ?thesis by blast
qed

subsection \<open>\<^verbatim>\<open>ValidateEdgeRules\<close>\<close>

text \<open>
  The state of the check is the flag \<^verbatim>\<open>bRulesAreValid\<close> with the warnings logged so far;
  every defect logs one warning and clears the flag.
\<close>

type_synonym validation = "bool \<times> log_msg list"

definition report :: "log_msg \<Rightarrow> validation \<Rightarrow> validation" where
  "report msg v = (False, snd v @ [msg])"

definition EdgeOf :: "Direction \<Rightarrow> FTileType \<Rightarrow> ETileEdgeType" where
  "EdgeOf d Tile = (case d of North \<Rightarrow> NorthEdge Tile | East \<Rightarrow> EastEdge Tile
                    | South \<Rightarrow> SouthEdge Tile | West \<Rightarrow> WestEdge Tile)"

definition check_edge :: "wfc \<Rightarrow> nat \<Rightarrow> FTileType \<Rightarrow> Direction \<Rightarrow> validation \<Rightarrow> validation" where
  "check_edge c i Tile d v =
     (if CompatibleEdges c (EdgeOf d Tile) = None then report (NoRule i d) v else v)"

definition check_tile :: "wfc \<Rightarrow> nat \<Rightarrow> FTileType \<Rightarrow> validation \<Rightarrow> validation" where
  "check_tile c i Tile v =
     check_edge c i Tile West (check_edge c i Tile South
       (check_edge c i Tile East (check_edge c i Tile North v)))"

text \<open>The loop over the tiles, on the tiles from index \<open>i\<close> on.\<close>

fun check_tiles :: "wfc \<Rightarrow> nat \<Rightarrow> FTileType list \<Rightarrow> validation \<Rightarrow> validation" where
  "check_tiles c i [] v = v"
| "check_tiles c i (Tile # rest) v = check_tiles c (i + 1) rest (check_tile c i Tile v)"

definition check_pair :: "wfc \<Rightarrow> ETileEdgeType \<Rightarrow> validation \<Rightarrow> validation" where
  "check_pair c Edge1 v =
     (case CompatibleEdges c Edge1 of
        None \<Rightarrow> v
      | Some Edge2 \<Rightarrow>
          (let ReverseCompatible = CompatibleEdges c Edge2 in
           if ReverseCompatible \<noteq> Some Edge1
           then report (NotSymmetric Edge1 Edge2 ReverseCompatible) v else v))"

definition check_pairs :: "wfc \<Rightarrow> validation \<Rightarrow> validation" where
  "check_pairs c v = foldl (\<lambda>v Edge1. check_pair c Edge1 v) v [Type_A, Type_B, Type_C, Type_D]"

definition ValidateEdgeRules :: "wfc \<Rightarrow> validation" where
  "ValidateEdgeRules c =
     (if length (TileTypes c) = 0 then (False, [NoTileTypes])
      else check_pairs c (check_tiles c 0 (TileTypes c) (True, [])))"

subsection \<open>\<^verbatim>\<open>GenerateGrid\<close>\<close>

text \<open>
  \<^verbatim>\<open>Grid.Empty(); Grid.SetNum(GridWidth * GridHeight)\<close> and the loop that gives every cell all
  tile indices. The engine's array refuses a negative count.
\<close>

definition InitGrid :: "wfc \<Rightarrow> wfc option" where
  "InitGrid c =
     (if GridWidth c * GridHeight c < 0 then None
      else Some (c\<lparr>Grid :=
             map (\<lambda>Cell. Cell\<lparr>bIsCollapsed := False,
                              PossibleStates := map int [0..<length (TileTypes c)]\<rparr>)
               (replicate (nat (GridWidth c * GridHeight c)) FCell_default)\<rparr>))"

text \<open>
  The main loop, from the values of \<^verbatim>\<open>IterationCount\<close>, the random source and the component
  at the loop test; it returns them as they are when the loop is left.
\<close>

function SolveLoop :: "int \<Rightarrow> int \<Rightarrow> rand \<Rightarrow> wfc \<Rightarrow> (int \<times> rand \<times> wfc) option" where
  "SolveLoop MaxIterations IterationCount rng c =
     (if \<not> IsGridFullyCollapsed c \<and> IterationCount < MaxIterations then
        (let CellToCollapse = FindCellWithLowestEntropy c in
         if CellToCollapse = - 1 then Some (IterationCount, rng, c)
         else
           (case CollapseCell CellToCollapse rng c of (rng', c1) \<Rightarrow>
              (case PropagateConstraints CellToCollapse c1 of
                 None \<Rightarrow> None
               | Some c2 \<Rightarrow> SolveLoop MaxIterations (IterationCount + 1) rng' c2)))
      else Some (IterationCount, rng, c))"
  by pat_completeness auto
termination
  by (relation "measure (\<lambda>(MaxIterations, IterationCount, rng, c). nat (MaxIterations - IterationCount))")
     auto

declare SolveLoop.simps [simp del]

record run =
  Final :: wfc
  Rand :: rand
  Iterations :: int
  Messages :: "log_msg list"

definition GenerateGrid :: "rand \<Rightarrow> wfc \<Rightarrow> run option" where
  "GenerateGrid rng c =
     (case ValidateEdgeRules c of (Valid, Warnings) \<Rightarrow>
        if \<not> Valid
        then Some \<lparr>Final = c, Rand = rng, Iterations = 0, Messages = Warnings @ [InvalidRules]\<rparr>
        else
          (case InitGrid c of
             None \<Rightarrow> None
           | Some c0 \<Rightarrow>
               (let MaxIterations = GridWidth c * GridHeight c * 10 in
                case SolveLoop MaxIterations 0 rng c0 of
                  None \<Rightarrow> None
                | Some (IterationCount, rng', c') \<Rightarrow>
                    Some \<lparr>Final = c', Rand = rng', Iterations = IterationCount,
                          Messages = Warnings @
                            (if MaxIterations \<le> IterationCount
                             then [MaxIterationsReached MaxIterations] else [])\<rparr>)))"

section \<open>Notions used by the properties\<close>

text \<open>
  A cell the selector may return: not collapsed, with at least one candidate. The entropy
  of a cell is its number of candidates.
\<close>

definition selectable :: "FCell \<Rightarrow> bool" where
  "selectable Cell = (\<not> bIsCollapsed Cell \<and> 0 < length (PossibleStates Cell))"

definition entropy :: "FCell \<Rightarrow> int" where
  "entropy Cell = int (length (PossibleStates Cell))"

text \<open>A partially solved 2 by 2 grid over three tiles, used to instantiate the properties.\<close>

definition plain_tile :: "ETileEdgeType \<Rightarrow> FTileType" where
  "plain_tile e = \<lparr>NorthEdge = e, EastEdge = e, SouthEdge = e, WestEdge = e\<rparr>"

definition example :: wfc where
  "example =
     \<lparr>GridWidth = 2, GridHeight = 2,
      TileTypes = [plain_tile Type_A, plain_tile Type_B, plain_tile Type_A],
      CompatibleEdges = [Type_A \<mapsto> Type_A, Type_B \<mapsto> Type_B],
      Grid = [\<lparr>PossibleStates = [1], bIsCollapsed = True, FinalState = 1\<rparr>,
              \<lparr>PossibleStates = [0, 1, 2], bIsCollapsed = False, FinalState = - 1\<rparr>,
              \<lparr>PossibleStates = [0, 2], bIsCollapsed = False, FinalState = - 1\<rparr>,
              \<lparr>PossibleStates = [1, 2], bIsCollapsed = False, FinalState = - 1\<rparr>]\<rparr>"

text \<open>
  The warnings \<^verbatim>\<open>ValidateEdgeRules\<close> owes for tile \<open>i\<close> (one for every direction whose edge
  label is no key of the table) and for the key \<open>Edge1\<close> of the table (one when the label
  it maps to does not map back).
\<close>

definition tile_defects :: "wfc \<Rightarrow> nat \<Rightarrow> FTileType \<Rightarrow> log_msg set" where
  "tile_defects c i Tile = {NoRule i d | d. CompatibleEdges c (EdgeOf d Tile) = None}"

definition pair_defects :: "wfc \<Rightarrow> ETileEdgeType \<Rightarrow> log_msg set" where
  "pair_defects c Edge1 =
     {NotSymmetric Edge1 Edge2 (CompatibleEdges c Edge2) | Edge2.
        CompatibleEdges c Edge1 = Some Edge2 \<and> CompatibleEdges c Edge2 \<noteq> Some Edge1}"

text \<open>
  An empty catalog with a one-way table, and the example grid with a one-way table.
\<close>

definition empty_asymmetric :: wfc where
  "empty_asymmetric =
     \<lparr>GridWidth = 2, GridHeight = 2, TileTypes = [],
      CompatibleEdges = [Type_A \<mapsto> Type_B], Grid = []\<rparr>"

definition asymmetric :: wfc where
  "asymmetric = example\<lparr>CompatibleEdges := [Type_A \<mapsto> Type_B]\<rparr>"

text \<open>
  The invariant of a cell over a catalog of \<open>tileCount\<close> tiles: a collapsed cell has its final
  state as its only candidate, and that state is a tile index; every candidate is a tile
  index.
\<close>

definition cell_ok :: "nat \<Rightarrow> FCell \<Rightarrow> bool" where
  "cell_ok tileCount Cell =
     ((bIsCollapsed Cell \<longrightarrow>
         PossibleStates Cell = [FinalState Cell] \<and>
         0 \<le> FinalState Cell \<and> FinalState Cell < int tileCount) \<and>
      (\<forall>State \<in> set (PossibleStates Cell). 0 \<le> State \<and> State < int tileCount))"

definition grid_ok :: "wfc \<Rightarrow> bool" where
  "grid_ok c = (\<forall>Cell \<in> set (Grid c). cell_ok (length (TileTypes c)) Cell)"

text \<open>The configuration of a component: everything but the grid.\<close>

definition config_of :: "wfc \<Rightarrow> wfc" where
  "config_of c = c\<lparr>Grid := []\<rparr>"

text \<open>
  \<open>shrunk c c'\<close>: the grid of \<open>c'\<close> has the cells of the grid of \<open>c\<close> with candidates
  removed at most, and the cells collapsed in \<open>c\<close> are untouched.
\<close>

definition shrunk :: "wfc \<Rightarrow> wfc \<Rightarrow> bool" where
  "shrunk c c' =
     (length (Grid c') = length (Grid c) \<and>
      (\<forall>j < length (Grid c).
         set (PossibleStates (Grid c' ! j)) \<subseteq> set (PossibleStates (Grid c ! j)) \<and>
         length (PossibleStates (Grid c' ! j)) \<le> length (PossibleStates (Grid c ! j)) \<and>
         (bIsCollapsed (Grid c ! j) \<longrightarrow> Grid c' ! j = Grid c ! j)))"

text \<open>A sequence of calls of \<^verbatim>\<open>PropagateConstraints\<close>, one per origin index.\<close>

fun propagate_calls :: "int list \<Rightarrow> wfc \<Rightarrow> wfc option" where
  "propagate_calls [] c = Some c"
| "propagate_calls (CellIndex # rest) c =
     (case PropagateConstraints CellIndex c of
        None \<Rightarrow> None
      | Some c' \<Rightarrow> propagate_calls rest c')"

text \<open>A 1 by 1 grid over two tiles, not yet generated.\<close>

definition single_cell :: wfc where
  "single_cell =
     \<lparr>GridWidth = 1, GridHeight = 1,
      TileTypes = [plain_tile Type_A, plain_tile Type_B],
      CompatibleEdges = [Type_A \<mapsto> Type_A, Type_B \<mapsto> Type_B],
      Grid = []\<rparr>"

text \<open>
  Every cell has a candidate, and fewer candidates than the sentinel of the entropy scan.
  A component is runnable when both invariants hold and the grid width is not zero.
\<close>

definition candidates_ok :: "wfc \<Rightarrow> bool" where
  "candidates_ok c =
     (\<forall>Cell \<in> set (Grid c). PossibleStates Cell \<noteq> [] \<and> entropy Cell < INT32_MAX)"

definition runnable :: "wfc \<Rightarrow> bool" where
  "runnable c = (grid_ok c \<and> candidates_ok c \<and> GridWidth c \<noteq> 0)"

text \<open>What one block keeps true of the queue and the component, relative to the component \<open>c0\<close>
  at the start of the call.\<close>

definition pending_ok :: "wfc \<Rightarrow> int list \<times> wfc \<Rightarrow> bool" where
  "pending_ok c0 s =
     (grid_ok (snd s) \<and> config_of (snd s) = config_of c0 \<and>
      length (Grid (snd s)) = length (Grid c0) \<and>
      (\<forall>q \<in> set (fst s). in_range q (Grid c0)))"

section \<open>Auxiliary facts\<close>

lemma entropy_scan_keep:
  "\<forall>Cell \<in> set cells. selectable Cell \<longrightarrow> low \<le> entropy Cell \<Longrightarrow>
   entropy_scan cells i (idx, low) = (idx, low)"
  by (induction cells arbitrary: i) (auto simp: selectable_def entropy_def)

lemma entropy_scan_pick:
  assumes "\<exists>Cell \<in> set cells. selectable Cell \<and> entropy Cell < low"
  shows "\<exists>j < length cells.
           entropy_scan cells i (idx, low) = (i + int j, entropy (cells ! j)) \<and>
           selectable (cells ! j) \<and> entropy (cells ! j) < low \<and>
           (\<forall>k < length cells. selectable (cells ! k) \<longrightarrow> entropy (cells ! j) \<le> entropy (cells ! k)) \<and>
           (\<forall>k < j. selectable (cells ! k) \<longrightarrow> entropy (cells ! j) < entropy (cells ! k))"
  using assms
proof (induction cells arbitrary: i idx low)
  case Nil
  then show ?case by simp
next
  case (Cons Cell rest)
  show ?case
  proof (cases "selectable Cell \<and> entropy Cell < low")
    case hit: True
    then have step: "entropy_scan (Cell # rest) i (idx, low) = entropy_scan rest (i + 1) (i, entropy Cell)"
      by (simp add: selectable_def entropy_def)
    show ?thesis
    proof (cases "\<exists>C \<in> set rest. selectable C \<and> entropy C < entropy Cell")
      case True
      from Cons.IH[OF True, of "i + 1" i] obtain j where j: "j < length rest"
        "entropy_scan rest (i + 1) (i, entropy Cell) = (i + 1 + int j, entropy (rest ! j))"
        "selectable (rest ! j)" "entropy (rest ! j) < entropy Cell"
        "\<forall>k < length rest. selectable (rest ! k) \<longrightarrow> entropy (rest ! j) \<le> entropy (rest ! k)"
        "\<forall>k < j. selectable (rest ! k) \<longrightarrow> entropy (rest ! j) < entropy (rest ! k)"
        by blast
      have "\<forall>k < length (Cell # rest). selectable ((Cell # rest) ! k) \<longrightarrow> entropy (rest ! j) \<le> entropy ((Cell # rest) ! k)"
        using j(4,5) by (auto simp: nth_Cons split: nat.splits)
      moreover have "\<forall>k < Suc j. selectable ((Cell # rest) ! k) \<longrightarrow> entropy (rest ! j) < entropy ((Cell # rest) ! k)"
        using j(4,6) by (auto simp: nth_Cons split: nat.splits)
      ultimately show ?thesis
        using j(1,2,3,4) hit step by (intro exI[of _ "Suc j"]) auto
    next
      case False
      then have "\<forall>C \<in> set rest. selectable C \<longrightarrow> entropy Cell \<le> entropy C" by auto
      from entropy_scan_keep[OF this] have
        "entropy_scan rest (i + 1) (i, entropy Cell) = (i, entropy Cell)" .
      moreover have "\<forall>k < length (Cell # rest). selectable ((Cell # rest) ! k) \<longrightarrow> entropy Cell \<le> entropy ((Cell # rest) ! k)"
        using False by (auto simp: nth_Cons split: nat.splits)
      ultimately show ?thesis using hit step by (intro exI[of _ 0]) auto
    qed
  next
    case miss: False
    then have step: "entropy_scan (Cell # rest) i (idx, low) = entropy_scan rest (i + 1) (idx, low)"
      by (auto simp: selectable_def entropy_def)
    from miss Cons.prems have ex: "\<exists>C \<in> set rest. selectable C \<and> entropy C < low" by auto
    from Cons.IH[OF ex, of "i + 1" idx] obtain j where j: "j < length rest"
        "entropy_scan rest (i + 1) (idx, low) = (i + 1 + int j, entropy (rest ! j))"
        "selectable (rest ! j)" "entropy (rest ! j) < low"
        "\<forall>k < length rest. selectable (rest ! k) \<longrightarrow> entropy (rest ! j) \<le> entropy (rest ! k)"
        "\<forall>k < j. selectable (rest ! k) \<longrightarrow> entropy (rest ! j) < entropy (rest ! k)"
      by blast
    have "\<forall>k < length (Cell # rest). selectable ((Cell # rest) ! k) \<longrightarrow> entropy (rest ! j) \<le> entropy ((Cell # rest) ! k)"
      using j(4,5) miss by (auto simp: nth_Cons split: nat.splits)
    moreover have "\<forall>k < Suc j. selectable ((Cell # rest) ! k) \<longrightarrow> entropy (rest ! j) < entropy ((Cell # rest) ! k)"
      using j(4,6) miss by (auto simp: nth_Cons split: nat.splits)
    ultimately show ?thesis
      using j(1,2,3,4) step by (intro exI[of _ "Suc j"]) auto
  qed
qed

lemma grid_update_same: "k < length (Grid c) \<Longrightarrow> c\<lparr>Grid := (Grid c)[k := Grid c ! k]\<rparr> = c"
  by simp

lemma FCell_overwritten:
  "(Cell :: FCell)\<lparr>PossibleStates := p, FinalState := f, bIsCollapsed := b\<rparr> =
     \<lparr>PossibleStates = p, bIsCollapsed = b, FinalState = f\<rparr>"
  by (cases Cell) simp

lemma Direction_all: "(\<forall>d. P d) \<longleftrightarrow> P North \<and> P East \<and> P South \<and> P West"
  by (metis Direction.exhaust)

lemma Direction_ex: "(\<exists>d. P d) \<longleftrightarrow> P North \<or> P East \<or> P South \<or> P West"
  by (metis Direction.exhaust)

lemma Edge_all: "(\<forall>e. P e) \<longleftrightarrow> P Type_A \<and> P Type_B \<and> P Type_C \<and> P Type_D"
  by (metis ETileEdgeType.exhaust)

lemma Edge_ex: "(\<exists>e. P e) \<longleftrightarrow> P Type_A \<or> P Type_B \<or> P Type_C \<or> P Type_D"
  by (metis ETileEdgeType.exhaust)

lemma Edge_UN: "(\<Union>e. F e) = F Type_A \<union> F Type_B \<union> F Type_C \<union> F Type_D"
proof (rule set_eqI)
  fix x
  show "x \<in> (\<Union>e. F e) \<longleftrightarrow> x \<in> F Type_A \<union> F Type_B \<union> F Type_C \<union> F Type_D"
    using Edge_ex[of "\<lambda>e. x \<in> F e"] by simp
qed

lemma check_edge_result:
  "fst (check_edge c i Tile d v) = (fst v \<and> CompatibleEdges c (EdgeOf d Tile) \<noteq> None)"
  "set (snd (check_edge c i Tile d v)) =
     set (snd v) \<union> (if CompatibleEdges c (EdgeOf d Tile) = None then {NoRule i d} else {})"
  by (auto simp: check_edge_def report_def)

lemma check_tile_result:
  "fst (check_tile c i Tile v) = (fst v \<and> (\<forall>d. CompatibleEdges c (EdgeOf d Tile) \<noteq> None))"
  "set (snd (check_tile c i Tile v)) = set (snd v) \<union> tile_defects c i Tile"
proof -
  show "fst (check_tile c i Tile v) = (fst v \<and> (\<forall>d. CompatibleEdges c (EdgeOf d Tile) \<noteq> None))"
    unfolding check_tile_def check_edge_result Direction_all by blast
  have "tile_defects c i Tile =
      (if CompatibleEdges c (EdgeOf North Tile) = None then {NoRule i North} else {}) \<union>
      (if CompatibleEdges c (EdgeOf East Tile) = None then {NoRule i East} else {}) \<union>
      (if CompatibleEdges c (EdgeOf South Tile) = None then {NoRule i South} else {}) \<union>
      (if CompatibleEdges c (EdgeOf West Tile) = None then {NoRule i West} else {})"
    unfolding tile_defects_def
    by (auto simp: Direction_ex split: if_splits)
  then show "set (snd (check_tile c i Tile v)) = set (snd v) \<union> tile_defects c i Tile"
    unfolding check_tile_def check_edge_result by blast
qed

lemma check_tiles_result:
  "fst (check_tiles c i tiles v) =
     (fst v \<and> (\<forall>Tile \<in> set tiles. \<forall>d. CompatibleEdges c (EdgeOf d Tile) \<noteq> None))"
  "set (snd (check_tiles c i tiles v)) =
     set (snd v) \<union> (\<Union>j < length tiles. tile_defects c (i + j) (tiles ! j))"
proof (induction tiles arbitrary: i v)
  case Nil
  { case 1 show ?case by simp }
  { case 2 show ?case by simp }
next
  case (Cons Tile rest)
  { case 1 show ?case by (simp add: Cons.IH(1) check_tile_result conj_assoc) }
  { case 2
    have "(\<Union>j < length (Tile # rest). tile_defects c (i + j) ((Tile # rest) ! j)) =
          tile_defects c i Tile \<union> (\<Union>j < length rest. tile_defects c (Suc i + j) (rest ! j))"
      by (auto simp: nth_Cons less_Suc_eq_0_disj split: nat.splits)
    then show ?case by (simp add: Cons.IH(2) check_tile_result Un_assoc) }
qed

lemma check_pair_result:
  "fst (check_pair c Edge1 v) =
     (fst v \<and> (\<forall>Edge2. CompatibleEdges c Edge1 = Some Edge2 \<longrightarrow> CompatibleEdges c Edge2 = Some Edge1))"
  "set (snd (check_pair c Edge1 v)) = set (snd v) \<union> pair_defects c Edge1"
  by (auto simp: check_pair_def report_def pair_defects_def Let_def split: option.splits)

lemma check_pairs_result:
  "fst (check_pairs c v) =
     (fst v \<and> (\<forall>Edge1 Edge2. CompatibleEdges c Edge1 = Some Edge2 \<longrightarrow>
                 CompatibleEdges c Edge2 = Some Edge1))"
  "set (snd (check_pairs c v)) = set (snd v) \<union> (\<Union>Edge1. pair_defects c Edge1)"
proof -
  show "fst (check_pairs c v) =
     (fst v \<and> (\<forall>Edge1 Edge2. CompatibleEdges c Edge1 = Some Edge2 \<longrightarrow>
                 CompatibleEdges c Edge2 = Some Edge1))"
    unfolding check_pairs_def Edge_all[of "\<lambda>Edge1. \<forall>Edge2. CompatibleEdges c Edge1 = Some Edge2 \<longrightarrow>
                 CompatibleEdges c Edge2 = Some Edge1"]
    by (simp add: check_pair_result conj_assoc)
  show "set (snd (check_pairs c v)) = set (snd v) \<union> (\<Union>Edge1. pair_defects c Edge1)"
    unfolding check_pairs_def Edge_UN
    by (simp add: check_pair_result Un_assoc)
qed

lemma in_range_nat: "in_range i xs \<Longrightarrow> nat i < length xs"
  by (auto simp: in_range_def)

lemma Update_cases:
  assumes "UpdateCellPossibilities i A c = (b, c')"
  obtains (same) "c' = c" "b = False"
  | (narrowed) "in_range i (Grid c)" "\<not> bIsCollapsed (Grid c ! nat i)"
      "c' = c\<lparr>Grid := (Grid c)[nat i := NarrowedCell A (Grid c ! nat i)]\<rparr>"
      "b = (length (PossibleStates (NarrowedCell A (Grid c ! nat i))) \<noteq>
             length (PossibleStates (Grid c ! nat i)))"
proof (cases "in_range i (Grid c) \<and> \<not> bIsCollapsed (Grid c ! nat i)")
  case False
  then have "c' = c \<and> b = False"
    using assms Update_out[of i c A] Update_collapsed[of i c A] by auto
  then show ?thesis using same by blast
next
  case True
  then show ?thesis using assms narrowed by (simp add: Update_live)
qed

lemma Collapse_cases:
  obtains (same) "CollapseCell i rng c = (rng, c)"
  | (chosen) ChosenState where "in_range i (Grid c)" "\<not> bIsCollapsed (Grid c ! nat i)"
      "ChosenState \<in> set (PossibleStates (Grid c ! nat i))"
      "CollapseCell i rng c =
         (stl rng, c\<lparr>Grid := (Grid c)[nat i :=
            \<lparr>PossibleStates = [ChosenState], bIsCollapsed = True, FinalState = ChosenState\<rparr>]\<rparr>)"
proof (cases "in_range i (Grid c) \<and> \<not> bIsCollapsed (Grid c ! nat i)
        \<and> PossibleStates (Grid c ! nat i) \<noteq> []")
  case False
  then have "CollapseCell i rng c = (rng, c)" by (auto simp: CollapseCell_def in_range_def)
  then show ?thesis using same by blast
next
  case True
  let ?ps = "PossibleStates (Grid c ! nat i)"
  let ?k = "shd rng mod length ?ps"
  from True have "?k < length ?ps" by simp
  then have "?ps ! ?k \<in> set ?ps" by simp
  moreover have "CollapseCell i rng c =
             (stl rng, c\<lparr>Grid := (Grid c)[nat i :=
                   \<lparr>PossibleStates = [?ps ! ?k], bIsCollapsed = True, FinalState = ?ps ! ?k\<rparr>]\<rparr>)"
    using True by (simp add: CollapseCell_def in_range_def RandRange_def Let_def FCell_overwritten)
  ultimately show ?thesis using True chosen by blast
qed

lemma NarrowedCell_subset:
  "set (PossibleStates (NarrowedCell A Cell)) \<subseteq> set (PossibleStates Cell)"
  by (auto simp: NarrowedCell_def Let_def)

lemma NarrowedCell_ok:
  assumes "cell_ok n Cell" "\<not> bIsCollapsed Cell"
  shows "cell_ok n (NarrowedCell A Cell)"
proof -
  let ?New = "filter (\<lambda>s. s \<in> set A) (PossibleStates Cell)"
  have sub: "set ?New \<subseteq> set (PossibleStates Cell)" by auto
  show ?thesis
  proof (cases "length ?New = 1")
    case True
    then obtain x where x: "?New = [x]" by (cases ?New) auto
    then have "x \<in> set (PossibleStates Cell)" using sub by auto
    with assms x show ?thesis by (simp add: NarrowedCell_def cell_ok_def)
  next
    case False
    with assms show ?thesis by (auto simp: NarrowedCell_def cell_ok_def Let_def)
  qed
qed

lemma grid_ok_update:
  assumes "grid_ok c" "cell_ok (length (TileTypes c)) Cell'"
  shows "grid_ok (c\<lparr>Grid := (Grid c)[k := Cell']\<rparr>)"
  using assms set_update_subset_insert[of "Grid c" k Cell']
  by (auto simp: grid_ok_def)

lemma Update_grid_ok:
  assumes "grid_ok c" "UpdateCellPossibilities i A c = (b, c')"
  shows "grid_ok c'"
  using assms(2)
proof (cases rule: Update_cases)
  case same
  with assms(1) show ?thesis by simp
next
  case narrowed
  then have "Grid c ! nat i \<in> set (Grid c)" by (simp add: in_range_nat)
  with assms(1) have "cell_ok (length (TileTypes c)) (Grid c ! nat i)" by (simp add: grid_ok_def)
  from NarrowedCell_ok[OF this narrowed(2)] grid_ok_update[OF assms(1)] narrowed(3)
  show ?thesis by simp
qed

lemma Collapse_grid_ok:
  assumes "grid_ok c"
  shows "grid_ok (snd (CollapseCell i rng c))"
proof (cases rule: Collapse_cases[of i rng c])
  case same
  with assms show ?thesis by simp
next
  case (chosen s)
  then have "Grid c ! nat i \<in> set (Grid c)" by (simp add: in_range_nat)
  with assms have "cell_ok (length (TileTypes c)) (Grid c ! nat i)" by (simp add: grid_ok_def)
  with chosen(3) have "cell_ok (length (TileTypes c))
      \<lparr>PossibleStates = [s], bIsCollapsed = True, FinalState = s\<rparr>"
    by (simp add: cell_ok_def)
  from grid_ok_update[OF assms this] chosen(4) show ?thesis by simp
qed

lemma InitGrid_grid_ok:
  assumes "InitGrid c = Some c0"
  shows "grid_ok c0"
  using assms by (auto simp: InitGrid_def grid_ok_def cell_ok_def FCell_default_def split: if_splits)

lemma Update_config:
  assumes "UpdateCellPossibilities i A c = (b, c')"
  shows "config_of c' = config_of c"
  using assms by (cases rule: Update_cases) (simp_all add: config_of_def)

lemma Collapse_config: "config_of (snd (CollapseCell i rng c)) = config_of c"
  by (cases rule: Collapse_cases[of i rng c]) (simp_all add: config_of_def)

lemma shrunk_refl: "shrunk c c"
  by (simp add: shrunk_def)

lemma shrunk_trans:
  assumes "shrunk a b" "shrunk b c"
  shows "shrunk a c"
  unfolding shrunk_def
proof (intro conjI allI impI)
  show "length (Grid c) = length (Grid a)" using assms by (simp add: shrunk_def)
next
  fix j assume j: "j < length (Grid a)"
  then have j': "j < length (Grid b)" using assms(1) by (simp add: shrunk_def)
  from assms(1) j have ab: "set (PossibleStates (Grid b ! j)) \<subseteq> set (PossibleStates (Grid a ! j))"
      "length (PossibleStates (Grid b ! j)) \<le> length (PossibleStates (Grid a ! j))"
      "bIsCollapsed (Grid a ! j) \<longrightarrow> Grid b ! j = Grid a ! j"
    by (simp_all add: shrunk_def)
  from assms(2) j' have bc: "set (PossibleStates (Grid c ! j)) \<subseteq> set (PossibleStates (Grid b ! j))"
      "length (PossibleStates (Grid c ! j)) \<le> length (PossibleStates (Grid b ! j))"
      "bIsCollapsed (Grid b ! j) \<longrightarrow> Grid c ! j = Grid b ! j"
    by (simp_all add: shrunk_def)
  show "set (PossibleStates (Grid c ! j)) \<subseteq> set (PossibleStates (Grid a ! j))"
    using ab(1) bc(1) by blast
  show "length (PossibleStates (Grid c ! j)) \<le> length (PossibleStates (Grid a ! j))"
    using ab(2) bc(2) by linarith
  { assume "bIsCollapsed (Grid a ! j)"
    with ab(3) bc(3) show "Grid c ! j = Grid a ! j" by simp }
qed

lemma shrunk_update:
  assumes "k < length (Grid c)" "\<not> bIsCollapsed (Grid c ! k)"
    "set (PossibleStates Cell') \<subseteq> set (PossibleStates (Grid c ! k))"
    "length (PossibleStates Cell') \<le> length (PossibleStates (Grid c ! k))"
  shows "shrunk c (c\<lparr>Grid := (Grid c)[k := Cell']\<rparr>)"
  using assms by (auto simp: shrunk_def nth_list_update)

lemma Update_shrunk:
  assumes "UpdateCellPossibilities i A c = (b, c')"
  shows "shrunk c c'"
  using assms
proof (cases rule: Update_cases)
  case same
  then show ?thesis by (simp add: shrunk_refl)
next
  case narrowed
  then have k: "nat i < length (Grid c)" by (simp add: in_range_nat)
  from shrunk_update[OF k narrowed(2) NarrowedCell_subset NarrowedCell_length] narrowed(3)
  show ?thesis by simp
qed

lemma Collapse_shrunk: "shrunk c (snd (CollapseCell i rng c))"
proof (cases rule: Collapse_cases[of i rng c])
  case same
  then show ?thesis by (simp add: shrunk_refl)
next
  case (chosen s)
  then have k: "nat i < length (Grid c)" by (simp add: in_range_nat)
  have ne: "PossibleStates (Grid c ! nat i) \<noteq> []" using chosen(3) by auto
  have "shrunk c (c\<lparr>Grid := (Grid c)[nat i :=
            \<lparr>PossibleStates = [s], bIsCollapsed = True, FinalState = s\<rparr>]\<rparr>)"
    using chosen(3) ne by (intro shrunk_update[OF k chosen(2)]) (auto simp: Suc_le_eq)
  with chosen(4) show ?thesis by simp
qed

lemma SolveLoop_step:
  assumes "\<not> IsGridFullyCollapsed c" "I < M" "FindCellWithLowestEntropy c \<noteq> - 1"
  shows "SolveLoop M I rng c =
           (case PropagateConstraints (FindCellWithLowestEntropy c)
                   (snd (CollapseCell (FindCellWithLowestEntropy c) rng c)) of
              None \<Rightarrow> None
            | Some c2 \<Rightarrow> SolveLoop M (I + 1) (fst (CollapseCell (FindCellWithLowestEntropy c) rng c)) c2)"
  using assms by (subst SolveLoop.simps) (simp add: Let_def case_prod_beta)

lemma SolveLoop_stop:
  assumes "IsGridFullyCollapsed c \<or> \<not> I < M \<or> FindCellWithLowestEntropy c = - 1"
  shows "SolveLoop M I rng c = Some (I, rng, c)"
  using assms by (subst SolveLoop.simps) (auto simp: Let_def)

lemma SolveLoop_preserves:
  assumes collapse: "\<And>i rng c. P c \<Longrightarrow> P (snd (CollapseCell i rng c))"
    and update: "\<And>i A c b c'. P c \<Longrightarrow> UpdateCellPossibilities i A c = (b, c') \<Longrightarrow> P c'"
  shows "P c \<Longrightarrow> SolveLoop M I rng c = Some (I', rng', c') \<Longrightarrow> P c'"
proof (induction M I rng c rule: SolveLoop.induct)
  case (1 M I rng c)
  let ?i = "FindCellWithLowestEntropy c"
  show ?case
  proof (cases "IsGridFullyCollapsed c \<or> \<not> I < M \<or> ?i = - 1")
    case True
    from SolveLoop_stop[OF True] "1.prems" show ?thesis by simp
  next
    case False
    then have go: "\<not> IsGridFullyCollapsed c" "I < M" "?i \<noteq> - 1" by auto
    obtain rng1 c1 where col: "CollapseCell ?i rng c = (rng1, c1)" by (cases "CollapseCell ?i rng c")
    from "1.prems"(2) SolveLoop_step[OF go, of rng] col obtain c2 where
      step: "PropagateConstraints ?i c1 = Some c2" and
      rest: "SolveLoop M (I + 1) rng1 c2 = Some (I', rng', c')"
      by (auto split: option.splits)
    have "P c1" using collapse[OF "1.prems"(1), of ?i rng] col by simp
    then have "P c2"
      using PropagateConstraints_preserves[where P = P, OF _ _ step] update by blast
    from "1.IH"[OF _ refl go(3) col[symmetric] step this rest] go show ?thesis by simp
  qed
qed

lemma PropagateConstraints_shrunk:
  assumes "PropagateConstraints i c = Some c'"
  shows "shrunk c c'"
proof -
  have "shrunk c c"  by (rule shrunk_refl)
  moreover have "\<And>i A d b d'. shrunk c d \<Longrightarrow> UpdateCellPossibilities i A d = (b, d') \<Longrightarrow> shrunk c d'"
    using Update_shrunk shrunk_trans by blast
  ultimately show ?thesis
    using PropagateConstraints_preserves[where P = "shrunk c", OF _ _ assms] by blast
qed

lemma SolveLoop_shrunk:
  assumes "SolveLoop M I rng c = Some (I', rng', c')"
  shows "shrunk c c'"
proof -
  have "shrunk c c"  by (rule shrunk_refl)
  moreover have "\<And>i A d b d'. shrunk c d \<Longrightarrow> UpdateCellPossibilities i A d = (b, d') \<Longrightarrow> shrunk c d'"
    using Update_shrunk shrunk_trans by blast
  moreover have "\<And>i rng d. shrunk c d \<Longrightarrow> shrunk c (snd (CollapseCell i rng d))"
    using Collapse_shrunk shrunk_trans by blast
  ultimately show ?thesis
    using SolveLoop_preserves[where P = "shrunk c", OF _ _ _ assms] by blast
qed

lemma propagate_calls_shrunk:
  "propagate_calls origins c = Some c' \<Longrightarrow> shrunk c c'"
proof (induction origins arbitrary: c)
  case Nil
  then show ?case by (simp add: shrunk_refl)
next
  case (Cons i rest)
  then obtain c1 where 1: "PropagateConstraints i c = Some c1" and 2: "propagate_calls rest c1 = Some c'"
    by (auto split: option.splits)
  from PropagateConstraints_shrunk[OF 1] Cons.IH[OF 2] show ?case by (rule shrunk_trans)
qed

lemma example_propagated:
  "map_option Grid (PropagateConstraints 0 example) =
     Some [\<lparr>PossibleStates = [1], bIsCollapsed = True, FinalState = 1\<rparr>,
           \<lparr>PossibleStates = [1], bIsCollapsed = True, FinalState = 1\<rparr>,
           \<lparr>PossibleStates = [0, 2], bIsCollapsed = False, FinalState = - 1\<rparr>,
           \<lparr>PossibleStates = [1], bIsCollapsed = True, FinalState = 1\<rparr>]"
  by code_simp

lemma single_cell_valid: "ValidateEdgeRules single_cell = (True, [])"
  by (simp add: ValidateEdgeRules_def single_cell_def plain_tile_def check_pairs_def
        check_pair_def check_tile_def check_edge_def report_def EdgeOf_def)

lemma single_cell_init:
  "InitGrid single_cell =
     Some (single_cell\<lparr>Grid := [\<lparr>PossibleStates = [0, 1], bIsCollapsed = False, FinalState = - 1\<rparr>]\<rparr>)"
  by (simp add: InitGrid_def single_cell_def FCell_default_def upt_rec)

lemma single_cell_loop:
  "SolveLoop 10 0 (sconst 3)
     (single_cell\<lparr>Grid := [\<lparr>PossibleStates = [0, 1], bIsCollapsed = False, FinalState = - 1\<rparr>]\<rparr>) =
   Some (1, sconst 3,
     single_cell\<lparr>Grid := [\<lparr>PossibleStates = [1], bIsCollapsed = True, FinalState = 1\<rparr>]\<rparr>)"
proof -
  let ?c = "single_cell\<lparr>Grid := [\<lparr>PossibleStates = [0, 1], bIsCollapsed = False, FinalState = - 1\<rparr>]\<rparr>"
  let ?d = "single_cell\<lparr>Grid := [\<lparr>PossibleStates = [1], bIsCollapsed = True, FinalState = 1\<rparr>]\<rparr>"
  have f: "FindCellWithLowestEntropy ?c = 0"
    by (simp add: FindCellWithLowestEntropy_def INT32_MAX_def)
  have nc: "\<not> IsGridFullyCollapsed ?c" by (simp add: IsGridFullyCollapsed_def)
  have col: "CollapseCell 0 (sconst 3) ?c = (sconst 3, ?d)"
    by (simp add: CollapseCell_def RandRange_def)
  have pr: "PropagateConstraints 0 ?d = Some ?d"
    by (simp add: PropagateConstraints_def PropagateStep_def IndexToXY_def in_range_def
        ProcessNeighbor_def single_cell_def)
  have fin: "IsGridFullyCollapsed ?d" by (simp add: IsGridFullyCollapsed_def)
  have "SolveLoop 10 0 (sconst 3) ?c = SolveLoop 10 1 (sconst 3) ?d"
    using SolveLoop_step[of ?c 0 10 "sconst 3"] nc f col pr by simp
  also have "\<dots> = Some (1, sconst 3, ?d)"
    using SolveLoop_stop[of ?d 1 10 "sconst 3"] fin by simp
  finally show ?thesis .
qed

lemma single_cell_run:
  "GenerateGrid (sconst 3) single_cell =
     Some \<lparr>Final = single_cell\<lparr>Grid := [\<lparr>PossibleStates = [1], bIsCollapsed = True, FinalState = 1\<rparr>]\<rparr>,
           Rand = sconst 3, Iterations = 1, Messages = []\<rparr>"
proof -
  have m: "GridWidth single_cell * GridHeight single_cell * 10 = 10" by (simp add: single_cell_def)
  show ?thesis
    by (simp add: GenerateGrid_def single_cell_valid single_cell_init m single_cell_loop)
qed







lemma InitGrid_config: "InitGrid c = Some c0 \<Longrightarrow> config_of c0 = config_of c"
  by (auto simp: InitGrid_def config_of_def split: if_splits)


lemma GenerateGrid_cases:
  assumes "GenerateGrid rng c = Some r"
  obtains (rejected) "\<not> fst (ValidateEdgeRules c)"
      "r = \<lparr>Final = c, Rand = rng, Iterations = 0,
            Messages = snd (ValidateEdgeRules c) @ [InvalidRules]\<rparr>"
  | (solved) c0 where "fst (ValidateEdgeRules c)" "InitGrid c = Some c0"
      "SolveLoop (GridWidth c * GridHeight c * 10) 0 rng c0 = Some (Iterations r, Rand r, Final r)"
      "Messages r = snd (ValidateEdgeRules c) @
         (if GridWidth c * GridHeight c * 10 \<le> Iterations r
          then [MaxIterationsReached (GridWidth c * GridHeight c * 10)] else [])"
proof (cases "fst (ValidateEdgeRules c)")
  case False
  with assms rejected show ?thesis
    by (cases "ValidateEdgeRules c") (auto simp: GenerateGrid_def)
next
  case True
  with assms solved show ?thesis
    by (cases "ValidateEdgeRules c")
       (auto simp: GenerateGrid_def Let_def split: option.splits)
qed


lemma AllowedStatesFor_total:
  assumes "\<forall>State \<in> set states. 0 \<le> State \<and> State < int (length (TileTypes c))"
  shows "\<exists>Allowed. AllowedStatesFor c CurrentEdge PotentialEdge states acc = Some Allowed"
  using assms by (induction states arbitrary: acc) auto

lemma ProcessNeighbor_total:
  assumes "grid_ok c" "in_range cur (Grid c)"
  shows "\<exists>s'. ProcessNeighbor h cur n e1 e2 (Q, c) = Some s'"
proof -
  from assms have "Grid c ! nat cur \<in> set (Grid c)" by (simp add: in_range_nat)
  with assms(1) have "\<forall>State \<in> set (PossibleStates (Grid c ! nat cur)).
      0 \<le> State \<and> State < int (length (TileTypes c))"
    by (simp add: grid_ok_def cell_ok_def)
  from AllowedStatesFor_total[OF this, of e1 e2 "[]"] show ?thesis
    by (auto simp: ProcessNeighbor_def split: prod.splits)
qed

lemma Update_length:
  assumes "UpdateCellPossibilities i A c = (b, c')"
  shows "length (Grid c') = length (Grid c)"
  using assms by (cases rule: Update_cases) simp_all

lemma Update_changed_in_range:
  assumes "UpdateCellPossibilities i A c = (True, c')"
  shows "in_range i (Grid c)"
  using assms by (cases rule: Update_cases) simp_all

lemma ProcessNeighbor_pending:
  assumes "pending_ok c0 (Q, c)" "ProcessNeighbor h cur n e1 e2 (Q, c) = Some (Q', c')"
  shows "pending_ok c0 (Q', c')"
proof (cases h)
  case False
  with assms show ?thesis by (simp add: ProcessNeighbor_def)
next
  case True
  with assms(2) obtain A b where
    u: "UpdateCellPossibilities n A c = (b, c')" and
    q: "Q' = (if b then AddUnique Q n else Q)"
    by (auto simp: ProcessNeighbor_def split: option.splits prod.splits)
  have "b \<Longrightarrow> in_range n (Grid c0)"
    using Update_changed_in_range[of n A c c'] u assms(1) by (auto simp: pending_ok_def in_range_def)
  then have "\<forall>q \<in> set Q'. in_range q (Grid c0)"
    using q assms(1) by (auto simp: pending_ok_def AddUnique_def split: if_splits)
  then show ?thesis
    using assms(1) Update_grid_ok[OF _ u] Update_config[OF u] Update_length[OF u]
    by (simp add: pending_ok_def)
qed

lemma pending_in_range:
  "pending_ok c0 (Q, c) \<Longrightarrow> in_range cur (Grid c0) \<Longrightarrow> in_range cur (Grid c)"
  by (simp add: pending_ok_def in_range_def)

lemma config_GridWidth: "config_of c = config_of c0 \<Longrightarrow> GridWidth c = GridWidth c0"
  by (cases c, cases c0) (simp add: config_of_def)

lemma PropagateStep_total:
  assumes "pending_ok c0 (Q, c)" "in_range cur (Grid c0)" "GridWidth c0 \<noteq> 0"
  shows "\<exists>Q' c'. PropagateStep cur Q c = Some (Q', c') \<and> pending_ok c0 (Q', c')"
proof -
  from assms(1) have w: "GridWidth c \<noteq> 0" using assms(3) config_GridWidth[of c c0]
    by (simp add: pending_ok_def)
  then obtain X Y where xy: "IndexToXY c cur = Some (X, Y)" by (simp add: IndexToXY_def)
  have r0: "in_range cur (Grid c)" using pending_in_range[OF assms(1,2)] .
  have g0: "grid_ok c" using assms(1) by (simp add: pending_ok_def)
  obtain Q1 c1 where 1: "ProcessNeighbor (0 < Y) cur (XYToIndex c X (Y - 1)) NorthEdge SouthEdge (Q, c) = Some (Q1, c1)"
    using ProcessNeighbor_total[OF g0 r0] by (metis surj_pair)
  have p1: "pending_ok c0 (Q1, c1)" using ProcessNeighbor_pending[OF assms(1) 1] .
  have r1: "in_range cur (Grid c1)" using pending_in_range[OF p1 assms(2)] .
  have g1: "grid_ok c1" using p1 by (simp add: pending_ok_def)
  obtain Q2 c2 where 2: "ProcessNeighbor (X < GridWidth c - 1) cur (XYToIndex c (X + 1) Y) EastEdge WestEdge (Q1, c1) = Some (Q2, c2)"
    using ProcessNeighbor_total[OF g1 r1] by (metis surj_pair)
  have p2: "pending_ok c0 (Q2, c2)" using ProcessNeighbor_pending[OF p1 2] .
  have r2: "in_range cur (Grid c2)" using pending_in_range[OF p2 assms(2)] .
  have g2: "grid_ok c2" using p2 by (simp add: pending_ok_def)
  obtain Q3 c3 where 3: "ProcessNeighbor (Y < GridHeight c - 1) cur (XYToIndex c X (Y + 1)) SouthEdge NorthEdge (Q2, c2) = Some (Q3, c3)"
    using ProcessNeighbor_total[OF g2 r2] by (metis surj_pair)
  have p3: "pending_ok c0 (Q3, c3)" using ProcessNeighbor_pending[OF p2 3] .
  have r3: "in_range cur (Grid c3)" using pending_in_range[OF p3 assms(2)] .
  have g3: "grid_ok c3" using p3 by (simp add: pending_ok_def)
  obtain Q4 c4 where 4: "ProcessNeighbor (0 < X) cur (XYToIndex c (X - 1) Y) WestEdge EastEdge (Q3, c3) = Some (Q4, c4)"
    using ProcessNeighbor_total[OF g3 r3] by (metis surj_pair)
  have p4: "pending_ok c0 (Q4, c4)" using ProcessNeighbor_pending[OF p3 4] .
  have "PropagateStep cur Q c = Some (Q4, c4)"
    using xy r0 1 2 3 4 by (simp add: PropagateStep_def)
  with p4 show ?thesis by blast
qed

lemma PropagateLoop_total:
  assumes "GridWidth c0 \<noteq> 0"
  shows "pending_ok c0 (Q, c) \<Longrightarrow> \<exists>c'. PropagateLoop Q c = Some c'"
proof (induction Q c rule: PropagateLoop.induct)
  case (1 c)
  then show ?case by simp
next
  case (2 cur Q c)
  from "2.prems" have r: "in_range cur (Grid c0)" and p: "pending_ok c0 (Q, c)"
    by (simp_all add: pending_ok_def)
  from PropagateStep_total[OF p r assms] obtain Q' c' where
    s: "PropagateStep cur Q c = Some (Q', c')" and p': "pending_ok c0 (Q', c')" by blast
  from "2.IH"[OF s refl p'] s show ?case by simp
qed

lemma PropagateConstraints_total:
  assumes "grid_ok c" "GridWidth c \<noteq> 0"
  shows "\<exists>c'. PropagateConstraints i c = Some c'"
proof (cases "i < 0 \<or> int (length (Grid c)) \<le> i")
  case True
  then show ?thesis by (simp add: PropagateConstraints_def)
next
  case False
  then have "pending_ok c ([i], c)" using assms(1) by (simp add: pending_ok_def in_range_def)
  from PropagateLoop_total[OF assms(2) this] False show ?thesis
    by (simp add: PropagateConstraints_def)
qed

lemma NarrowedCell_nonempty:
  "PossibleStates Cell \<noteq> [] \<Longrightarrow> PossibleStates (NarrowedCell A Cell) \<noteq> []"
  by (auto simp: NarrowedCell_def Let_def)

lemma candidates_ok_update:
  assumes "candidates_ok c" "PossibleStates Cell' \<noteq> []" "entropy Cell' < INT32_MAX"
  shows "candidates_ok (c\<lparr>Grid := (Grid c)[k := Cell']\<rparr>)"
  using assms set_update_subset_insert[of "Grid c" k Cell']
  by (auto simp: candidates_ok_def)

lemma Update_candidates_ok:
  assumes "candidates_ok c" "UpdateCellPossibilities i A c = (b, c')"
  shows "candidates_ok c'"
  using assms(2)
proof (cases rule: Update_cases)
  case same
  with assms(1) show ?thesis by simp
next
  case narrowed
  then have "Grid c ! nat i \<in> set (Grid c)" by (simp add: in_range_nat)
  with assms(1) have ne: "PossibleStates (Grid c ! nat i) \<noteq> []"
    and lt: "entropy (Grid c ! nat i) < INT32_MAX"
    by (simp_all add: candidates_ok_def)
  have "entropy (NarrowedCell A (Grid c ! nat i)) < INT32_MAX"
    using lt NarrowedCell_length[of A "Grid c ! nat i"] by (simp add: entropy_def)
  from candidates_ok_update[OF assms(1) NarrowedCell_nonempty[OF ne] this] narrowed(3)
  show ?thesis by simp
qed

lemma Collapse_candidates_ok:
  assumes "candidates_ok c"
  shows "candidates_ok (snd (CollapseCell i rng c))"
proof (cases rule: Collapse_cases[of i rng c])
  case same
  with assms show ?thesis by simp
next
  case (chosen s)
  have "candidates_ok (c\<lparr>Grid := (Grid c)[nat i :=
            \<lparr>PossibleStates = [s], bIsCollapsed = True, FinalState = s\<rparr>]\<rparr>)"
    by (rule candidates_ok_update[OF assms]) (simp_all add: entropy_def INT32_MAX_def)
  with chosen(4) show ?thesis by simp
qed

lemma Update_runnable:
  assumes "runnable c" "UpdateCellPossibilities i A c = (b, c')"
  shows "runnable c'"
  using assms Update_grid_ok[OF _ assms(2)] Update_candidates_ok[OF _ assms(2)]
    config_GridWidth[OF Update_config[OF assms(2)]]
  by (simp add: runnable_def)

lemma Collapse_runnable:
  assumes "runnable c"
  shows "runnable (snd (CollapseCell i rng c))"
  using assms Collapse_grid_ok[of c i rng] Collapse_candidates_ok[of c i rng]
    config_GridWidth[OF Collapse_config[of i rng c]]
  by (simp add: runnable_def)

lemma FindCell_none:
  assumes "candidates_ok c" "FindCellWithLowestEntropy c = - 1"
  shows "IsGridFullyCollapsed c"
proof (rule ccontr)
  assume "\<not> IsGridFullyCollapsed c"
  then obtain Cell where "Cell \<in> set (Grid c)" "\<not> bIsCollapsed Cell"
    by (auto simp: IsGridFullyCollapsed_def list_all_iff)
  with assms(1) have "\<exists>Cell \<in> set (Grid c). selectable Cell \<and> entropy Cell < INT32_MAX"
    by (auto simp: candidates_ok_def selectable_def)
  from entropy_scan_pick[OF this, of 0 "- 1"] obtain j where
    "entropy_scan (Grid c) 0 (- 1, INT32_MAX) = (int j, entropy (Grid c ! j))" by auto
  then have "FindCellWithLowestEntropy c = int j" by (simp add: FindCellWithLowestEntropy_def)
  with assms(2) show False by simp
qed

lemma SolveLoop_total:
  "runnable c \<Longrightarrow> I \<le> M \<Longrightarrow>
   \<exists>I' rng' c'. SolveLoop M I rng c = Some (I', rng', c') \<and> I \<le> I' \<and> I' \<le> M \<and>
      (IsGridFullyCollapsed c' \<or> M \<le> I')"
proof (induction M I rng c rule: SolveLoop.induct)
  case (1 M I rng c)
  let ?i = "FindCellWithLowestEntropy c"
  show ?case
  proof (cases "IsGridFullyCollapsed c \<or> \<not> I < M \<or> ?i = - 1")
    case True
    have "IsGridFullyCollapsed c \<or> M \<le> I"
      using True FindCell_none[of c] "1.prems"(1) by (auto simp: runnable_def)
    with SolveLoop_stop[OF True, of rng] "1.prems"(2) show ?thesis by simp
  next
    case False
    then have go: "\<not> IsGridFullyCollapsed c" "I < M" "?i \<noteq> - 1" by auto
    obtain rng1 c1 where col: "CollapseCell ?i rng c = (rng1, c1)" by (cases "CollapseCell ?i rng c")
    have r1: "runnable c1" using Collapse_runnable[OF "1.prems"(1), of ?i rng] col by simp
    then obtain c2 where step: "PropagateConstraints ?i c1 = Some c2"
      using PropagateConstraints_total[of c1 ?i] by (auto simp: runnable_def)
    have r2: "runnable c2"
      using PropagateConstraints_preserves[where P = runnable, OF _ r1 step] Update_runnable by blast
    from "1.IH"[OF _ refl go(3) col[symmetric] step r2] go obtain I' rng' c' where
      rest: "SolveLoop M (I + 1) rng1 c2 = Some (I', rng', c')" "I + 1 \<le> I'" "I' \<le> M"
        "IsGridFullyCollapsed c' \<or> M \<le> I'"
      by auto
    have "SolveLoop M I rng c = Some (I', rng', c')"
      using SolveLoop_step[OF go, of rng] col step rest(1) by simp
    with rest show ?thesis by auto
  qed
qed

lemma InitGrid_runnable:
  assumes "InitGrid c = Some c0" "TileTypes c \<noteq> []" "int (length (TileTypes c)) < INT32_MAX"
    "GridWidth c \<noteq> 0"
  shows "runnable c0"
proof -
  have "candidates_ok c0" using assms(1,2,3)
    by (auto simp: InitGrid_def candidates_ok_def entropy_def split: if_splits)
  moreover have "GridWidth c0 \<noteq> 0" using assms(4) config_GridWidth[OF InitGrid_config[OF assms(1)]]
    by simp
  ultimately show ?thesis using InitGrid_grid_ok[OF assms(1)] by (simp add: runnable_def)
qed

lemma valid_nonempty: "fst (ValidateEdgeRules c) \<Longrightarrow> TileTypes c \<noteq> []"
  by (auto simp: ValidateEdgeRules_def)

lemma example_grid_ok: "grid_ok example"
  by (simp add: grid_ok_def cell_ok_def example_def)

section \<open>Properties\<close>

subsection \<open>Entropy selection\<close>

text \<open>
  C1. \<^verbatim>\<open>FindCellWithLowestEntropy\<close> returns \<open>-1\<close> exactly when no cell is selectable (not
  collapsed, with a positive number of candidates). Otherwise it returns the index of a
  selectable cell whose candidate count is the smallest among the selectable cells, and
  every selectable cell before it has a strictly larger count: ties go to the lowest index.
  Candidate counts are \<^verbatim>\<open>int32\<close> values below the sentinel \<^verbatim>\<open>TNumericLimits<int32>::Max()\<close>
  with which the scan starts.
\<close>

theorem FindCellWithLowestEntropy_lowest:
  assumes "\<forall>Cell \<in> set (Grid c). entropy Cell < INT32_MAX"
  shows "(FindCellWithLowestEntropy c = - 1 \<longleftrightarrow> (\<forall>Cell \<in> set (Grid c). \<not> selectable Cell)) \<and>
         (FindCellWithLowestEntropy c \<noteq> - 1 \<longrightarrow>
            (\<exists>j < length (Grid c).
               FindCellWithLowestEntropy c = int j \<and> selectable (Grid c ! j) \<and>
               (\<forall>k < length (Grid c). selectable (Grid c ! k) \<longrightarrow>
                  entropy (Grid c ! j) \<le> entropy (Grid c ! k)) \<and>
               (\<forall>k < j. selectable (Grid c ! k) \<longrightarrow>
                  entropy (Grid c ! j) < entropy (Grid c ! k))))"
proof (cases "\<exists>Cell \<in> set (Grid c). selectable Cell")
  case False
  then have "\<forall>Cell \<in> set (Grid c). selectable Cell \<longrightarrow> INT32_MAX \<le> entropy Cell" by blast
  from entropy_scan_keep[OF this, of 0 "- 1"] False show ?thesis
    by (simp add: FindCellWithLowestEntropy_def)
next
  case True
  with assms have "\<exists>Cell \<in> set (Grid c). selectable Cell \<and> entropy Cell < INT32_MAX" by blast
  from entropy_scan_pick[OF this, of 0 "- 1"] obtain j where j: "j < length (Grid c)"
    "entropy_scan (Grid c) 0 (- 1, INT32_MAX) = (int j, entropy (Grid c ! j))"
    "selectable (Grid c ! j)"
    "\<forall>k < length (Grid c). selectable (Grid c ! k) \<longrightarrow> entropy (Grid c ! j) \<le> entropy (Grid c ! k)"
    "\<forall>k < j. selectable (Grid c ! k) \<longrightarrow> entropy (Grid c ! j) < entropy (Grid c ! k)"
    by auto
  have r: "FindCellWithLowestEntropy c = int j" using j(2) by (simp add: FindCellWithLowestEntropy_def)
  show ?thesis using True j r by auto
qed

theorem FindCellWithLowestEntropy_lowest_witness:
  "list_all (\<lambda>Cell. entropy Cell < INT32_MAX) (Grid example) \<and>
   FindCellWithLowestEntropy example = 2 \<and>
   (\<exists>j < length (Grid example).
      FindCellWithLowestEntropy example = int j \<and> selectable (Grid example ! j) \<and>
      (\<forall>k < length (Grid example). selectable (Grid example ! k) \<longrightarrow>
         entropy (Grid example ! j) \<le> entropy (Grid example ! k)) \<and>
      (\<forall>k < j. selectable (Grid example ! k) \<longrightarrow>
         entropy (Grid example ! j) < entropy (Grid example ! k)))"
proof -
  have h: "\<forall>Cell \<in> set (Grid example). entropy Cell < INT32_MAX"
    by (simp add: example_def entropy_def INT32_MAX_def)
  have r: "FindCellWithLowestEntropy example = 2"
    by (simp add: FindCellWithLowestEntropy_def example_def INT32_MAX_def)
  from FindCellWithLowestEntropy_lowest[OF h] r h show ?thesis by (simp add: list_all_iff)
qed

subsection \<open>Forced collapse during propagation\<close>

text \<open>
  C2. When \<^verbatim>\<open>UpdateCellPossibilities\<close> filters the candidates of a cell that is not collapsed
  by the allowed states and exactly one candidate \<open>x\<close> remains, the cell becomes collapsed
  with \<open>x\<close> as its only candidate and its final state, and every other cell is as before.
  The function has no access to the random source: the value is forced.
\<close>

theorem UpdateCellPossibilities_forced:
  assumes "in_range i (Grid c)" and "\<not> bIsCollapsed (Grid c ! nat i)"
    and "filter (\<lambda>State. State \<in> set A) (PossibleStates (Grid c ! nat i)) = [x]"
  shows "UpdateCellPossibilities i A c =
           (length (PossibleStates (Grid c ! nat i)) \<noteq> 1,
            c\<lparr>Grid := (Grid c)[nat i :=
                 \<lparr>PossibleStates = [x], bIsCollapsed = True, FinalState = x\<rparr>]\<rparr>)"
  using assms by (auto simp: Update_live NarrowedCell_def FCell_overwritten)

theorem UpdateCellPossibilities_forced_witness:
  "in_range 1 (Grid example) \<and> \<not> bIsCollapsed (Grid example ! nat 1) \<and>
   filter (\<lambda>State. State \<in> set [1]) (PossibleStates (Grid example ! nat 1)) = [1] \<and>
   UpdateCellPossibilities 1 [1] example =
     (True, example\<lparr>Grid := (Grid example)[nat 1 :=
        \<lparr>PossibleStates = [1], bIsCollapsed = True, FinalState = 1\<rparr>]\<rparr>)"
proof -
  have h1: "in_range 1 (Grid example)" by (simp add: in_range_def example_def)
  have h2: "\<not> bIsCollapsed (Grid example ! nat 1)" by (simp add: example_def)
  have h3: "filter (\<lambda>State. State \<in> set [1]) (PossibleStates (Grid example ! nat 1)) = [1]"
    by (simp add: example_def)
  have l: "length (PossibleStates (Grid example ! nat 1)) \<noteq> 1" by (simp add: example_def)
  from UpdateCellPossibilities_forced[OF h1 h2 h3] l h1 h2 h3 show ?thesis by simp
qed

subsection \<open>Empty intersection during propagation\<close>

text \<open>
  C3. When no candidate of the neighbour is among the allowed states,
  \<^verbatim>\<open>UpdateCellPossibilities\<close> reports no change and leaves the whole component as it was
  (candidates, collapsed flag and final state of the neighbour included), and the block of
  \<^verbatim>\<open>PropagateConstraints\<close> that handles this neighbour leaves the queue as it was and goes
  on without a fault.
\<close>

theorem UpdateCellPossibilities_contradiction:
  assumes "in_range i (Grid c)"
    and "filter (\<lambda>State. State \<in> set A) (PossibleStates (Grid c ! nat i)) = []"
  shows "UpdateCellPossibilities i A c = (False, c) \<and>
         (AllowedStatesFor c CurrentEdge PotentialEdge (PossibleStates (Grid c ! nat cur)) [] = Some A
            \<longrightarrow> ProcessNeighbor True cur i CurrentEdge PotentialEdge (Q, c) = Some (Q, c))"
proof -
  have u: "UpdateCellPossibilities i A c = (False, c)"
  proof (cases "bIsCollapsed (Grid c ! nat i)")
    case True
    with assms(1) show ?thesis by (simp add: Update_collapsed)
  next
    case False
    with assms show ?thesis by (simp add: Update_live NarrowedCell_def in_range_def)
  qed
  then show ?thesis by (simp add: ProcessNeighbor_def)
qed

theorem UpdateCellPossibilities_contradiction_witness:
  "in_range 2 (Grid example) \<and>
   filter (\<lambda>State. State \<in> set [1]) (PossibleStates (Grid example ! nat 2)) = [] \<and>
   AllowedStatesFor example SouthEdge NorthEdge (PossibleStates (Grid example ! nat 0)) [] = Some [1] \<and>
   UpdateCellPossibilities 2 [1] example = (False, example) \<and>
   ProcessNeighbor True 0 2 SouthEdge NorthEdge ([3], example) = Some ([3], example)"
proof -
  have h1: "in_range 2 (Grid example)" by (simp add: in_range_def example_def)
  have h2: "filter (\<lambda>State. State \<in> set [1]) (PossibleStates (Grid example ! nat 2)) = []"
    by (simp add: example_def)
  have h3: "AllowedStatesFor example SouthEdge NorthEdge (PossibleStates (Grid example ! nat 0)) [] = Some [1]"
    by (simp add: example_def CompatibleTiles_def AreEdgesCompatible_def AddUnique_def plain_tile_def upt_rec)
  from UpdateCellPossibilities_contradiction[OF h1 h2, of SouthEdge NorthEdge 0 "[3]"] h1 h2 h3
  show ?thesis by simp
qed

subsection \<open>Collapse\<close>

text \<open>
  C6. \<^verbatim>\<open>CollapseCell\<close> on an index out of range, on a collapsed cell or on a cell without
  candidates changes nothing and draws nothing. On any other cell it consumes one draw,
  and the cell becomes collapsed with one of its former candidates as its only candidate
  and its final state; the other cells are as before.
\<close>

theorem CollapseCell_effect:
  "(if in_range i (Grid c) \<and> \<not> bIsCollapsed (Grid c ! nat i)
        \<and> PossibleStates (Grid c ! nat i) \<noteq> []
    then \<exists>ChosenState \<in> set (PossibleStates (Grid c ! nat i)).
           CollapseCell i rng c =
             (stl rng,
              c\<lparr>Grid := (Grid c)[nat i :=
                   \<lparr>PossibleStates = [ChosenState], bIsCollapsed = True,
                      FinalState = ChosenState\<rparr>]\<rparr>)
    else CollapseCell i rng c = (rng, c))"
proof (cases "in_range i (Grid c) \<and> \<not> bIsCollapsed (Grid c ! nat i)
        \<and> PossibleStates (Grid c ! nat i) \<noteq> []")
  case False
  then show ?thesis by (auto simp: CollapseCell_def in_range_def)
next
  case True
  let ?ps = "PossibleStates (Grid c ! nat i)"
  let ?k = "shd rng mod length ?ps"
  from True have "?k < length ?ps" by simp
  then have "?ps ! ?k \<in> set ?ps" by simp
  moreover have "CollapseCell i rng c =
             (stl rng, c\<lparr>Grid := (Grid c)[nat i :=
                   \<lparr>PossibleStates = [?ps ! ?k], bIsCollapsed = True, FinalState = ?ps ! ?k\<rparr>]\<rparr>)"
    using True by (simp add: CollapseCell_def in_range_def RandRange_def Let_def FCell_overwritten)
  ultimately show ?thesis using True by auto
qed

theorem CollapseCell_effect_witness:
  "in_range 3 (Grid example) \<and> \<not> bIsCollapsed (Grid example ! nat 3) \<and>
   PossibleStates (Grid example ! nat 3) \<noteq> [] \<and>
   (\<exists>ChosenState \<in> set (PossibleStates (Grid example ! nat 3)).
      CollapseCell 3 (siterate Suc 1) example =
        (stl (siterate Suc 1),
         example\<lparr>Grid := (Grid example)[nat 3 :=
            \<lparr>PossibleStates = [ChosenState], bIsCollapsed = True, FinalState = ChosenState\<rparr>]\<rparr>)) \<and>
   CollapseCell 0 (siterate Suc 1) example = (siterate Suc 1, example)"
proof -
  have h: "in_range 3 (Grid example) \<and> \<not> bIsCollapsed (Grid example ! nat 3) \<and>
           PossibleStates (Grid example ! nat 3) \<noteq> []"
    by (simp add: in_range_def example_def)
  have g: "\<not> (in_range 0 (Grid example) \<and> \<not> bIsCollapsed (Grid example ! nat 0) \<and>
           PossibleStates (Grid example ! nat 0) \<noteq> [])"
    by (simp add: example_def)
  from CollapseCell_effect[of 3 example "siterate Suc 1"] CollapseCell_effect[of 0 example "siterate Suc 1"] h g
  show ?thesis by presburger
qed

subsection \<open>Validation\<close>

text \<open>
  C7. \<^verbatim>\<open>ValidateEdgeRules\<close> succeeds exactly when the catalog is not empty, every edge label
  of every tile is a key of the compatibility table, and every pair of the table has its
  reverse pair. With a non-empty catalog the warnings of a run are exactly one for every
  tile and direction whose label is missing and one for every pair without its reverse:
  all of them are reported in the same run. With an empty catalog the function returns at
  once: the only warning is the one for the empty catalog and the table is not examined.
\<close>

theorem ValidateEdgeRules_defects:
  "(fst (ValidateEdgeRules c) \<longleftrightarrow>
      TileTypes c \<noteq> [] \<and>
      (\<forall>Tile \<in> set (TileTypes c). \<forall>d. CompatibleEdges c (EdgeOf d Tile) \<noteq> None) \<and>
      (\<forall>Edge1 Edge2. CompatibleEdges c Edge1 = Some Edge2 \<longrightarrow>
         CompatibleEdges c Edge2 = Some Edge1)) \<and>
   (TileTypes c \<noteq> [] \<longrightarrow>
      set (snd (ValidateEdgeRules c)) =
        (\<Union>i < length (TileTypes c). tile_defects c i (TileTypes c ! i)) \<union>
        (\<Union>Edge1. pair_defects c Edge1)) \<and>
   (TileTypes c = [] \<longrightarrow> ValidateEdgeRules c = (False, [NoTileTypes]))"
  by (simp add: ValidateEdgeRules_def check_pairs_result check_tiles_result)

theorem ValidateEdgeRules_defects_witness:
  "TileTypes asymmetric \<noteq> [] \<and>
   \<not> fst (ValidateEdgeRules asymmetric) \<and>
   set (snd (ValidateEdgeRules asymmetric)) =
     (\<Union>i < length (TileTypes asymmetric). tile_defects asymmetric i (TileTypes asymmetric ! i)) \<union>
     (\<Union>Edge1. pair_defects asymmetric Edge1) \<and>
   snd (ValidateEdgeRules asymmetric) =
     [NoRule 1 North, NoRule 1 East, NoRule 1 South, NoRule 1 West,
      NotSymmetric Type_A Type_B None] \<and>
   TileTypes empty_asymmetric = [] \<and>
   ValidateEdgeRules empty_asymmetric = (False, [NoTileTypes])"
proof -
  have h: "TileTypes asymmetric \<noteq> []" by (simp add: asymmetric_def example_def)
  have e: "TileTypes empty_asymmetric = []" by (simp add: empty_asymmetric_def)
  have v: "ValidateEdgeRules asymmetric =
     (False, [NoRule 1 North, NoRule 1 East, NoRule 1 South, NoRule 1 West,
      NotSymmetric Type_A Type_B None])"
    by (simp add: ValidateEdgeRules_def asymmetric_def example_def plain_tile_def check_pairs_def
        check_pair_def check_tile_def check_edge_def report_def EdgeOf_def)
  from ValidateEdgeRules_defects[of asymmetric] ValidateEdgeRules_defects[of empty_asymmetric] h e v
  show ?thesis by simp
qed

text \<open>
  With an empty catalog and a table that maps \<open>Type_A\<close> to \<open>Type_B\<close> but not back, the run
  fails and reports the empty catalog only; the pair without its reverse is not reported.
\<close>

theorem ValidateEdgeRules_stops_at_empty_catalog:
  "\<not> fst (ValidateEdgeRules empty_asymmetric) \<and>
   CompatibleEdges empty_asymmetric Type_A = Some Type_B \<and>
   CompatibleEdges empty_asymmetric Type_B = None \<and>
   snd (ValidateEdgeRules empty_asymmetric) = [NoTileTypes] \<and>
   NotSymmetric Type_A Type_B None \<notin> set (snd (ValidateEdgeRules empty_asymmetric))"
  by (simp add: ValidateEdgeRules_def empty_asymmetric_def)

subsection \<open>No solving after a failed validation\<close>

text \<open>
  C8. When \<^verbatim>\<open>ValidateEdgeRules\<close> fails, \<^verbatim>\<open>GenerateGrid\<close> logs the error and returns: the
  component, its grid included, is as before (no initialisation), the random source is
  untouched (no collapse) and the main loop has run zero times (no selection, no
  propagation).
\<close>

theorem GenerateGrid_rejects:
  assumes "\<not> fst (ValidateEdgeRules c)"
  shows "GenerateGrid rng c =
           Some \<lparr>Final = c, Rand = rng, Iterations = 0,
                 Messages = snd (ValidateEdgeRules c) @ [InvalidRules]\<rparr>"
  using assms by (cases "ValidateEdgeRules c") (simp add: GenerateGrid_def)

theorem GenerateGrid_rejects_witness:
  "\<not> fst (ValidateEdgeRules asymmetric) \<and>
   GenerateGrid (siterate Suc 0) asymmetric =
     Some \<lparr>Final = asymmetric, Rand = siterate Suc 0, Iterations = 0,
           Messages = [NoRule 1 North, NoRule 1 East, NoRule 1 South, NoRule 1 West,
                       NotSymmetric Type_A Type_B None, InvalidRules]\<rparr> \<and>
   Grid asymmetric = Grid example"
proof -
  have v: "ValidateEdgeRules asymmetric =
     (False, [NoRule 1 North, NoRule 1 East, NoRule 1 South, NoRule 1 West,
      NotSymmetric Type_A Type_B None])"
    by (simp add: ValidateEdgeRules_def asymmetric_def example_def plain_tile_def check_pairs_def
        check_pair_def check_tile_def check_edge_def report_def EdgeOf_def)
  then have h: "\<not> fst (ValidateEdgeRules asymmetric)" by simp
  from GenerateGrid_rejects[OF h, of "siterate Suc 0"] v h show ?thesis
    by (simp add: asymmetric_def)
qed

subsection \<open>Monotonicity of propagation\<close>

text \<open>
  C4. Over any sequence of calls of \<^verbatim>\<open>PropagateConstraints\<close> that ends without a fault,
  and over the whole main loop (where the calls alternate with \<^verbatim>\<open>CollapseCell\<close>), every
  cell's candidates at the end are among its candidates at the start, their number has not
  grown, and a cell that was collapsed at the start is the same at the end: candidates,
  collapsed flag and final state.
\<close>

theorem propagation_only_shrinks:
  "(propagate_calls origins c = Some c' \<longrightarrow> shrunk c c') \<and>
   (SolveLoop M I rng c = Some (I', rng', c'') \<longrightarrow> shrunk c c'')"
  using propagate_calls_shrunk SolveLoop_shrunk by blast

theorem propagation_only_shrinks_witness:
  "(\<exists>c'. propagate_calls [0, 3] example = Some c' \<and> shrunk example c' \<and>
      Grid c' = [\<lparr>PossibleStates = [1], bIsCollapsed = True, FinalState = 1\<rparr>,
                 \<lparr>PossibleStates = [1], bIsCollapsed = True, FinalState = 1\<rparr>,
                 \<lparr>PossibleStates = [0, 2], bIsCollapsed = False, FinalState = - 1\<rparr>,
                 \<lparr>PossibleStates = [1], bIsCollapsed = True, FinalState = 1\<rparr>]) \<and>
   (\<exists>c''. SolveLoop 10 0 (sconst 3)
        (single_cell\<lparr>Grid := [\<lparr>PossibleStates = [0, 1], bIsCollapsed = False, FinalState = - 1\<rparr>]\<rparr>)
          = Some (1, sconst 3, c'') \<and>
      shrunk (single_cell\<lparr>Grid := [\<lparr>PossibleStates = [0, 1], bIsCollapsed = False, FinalState = - 1\<rparr>]\<rparr>) c'' \<and>
      Grid c'' = [\<lparr>PossibleStates = [1], bIsCollapsed = True, FinalState = 1\<rparr>])"
proof -
  have "map_option Grid (propagate_calls [0, 3] example) =
     Some [\<lparr>PossibleStates = [1], bIsCollapsed = True, FinalState = 1\<rparr>,
           \<lparr>PossibleStates = [1], bIsCollapsed = True, FinalState = 1\<rparr>,
           \<lparr>PossibleStates = [0, 2], bIsCollapsed = False, FinalState = - 1\<rparr>,
           \<lparr>PossibleStates = [1], bIsCollapsed = True, FinalState = 1\<rparr>]"
    by code_simp
  then obtain c' where c': "propagate_calls [0, 3] example = Some c'"
    "Grid c' = [\<lparr>PossibleStates = [1], bIsCollapsed = True, FinalState = 1\<rparr>,
           \<lparr>PossibleStates = [1], bIsCollapsed = True, FinalState = 1\<rparr>,
           \<lparr>PossibleStates = [0, 2], bIsCollapsed = False, FinalState = - 1\<rparr>,
           \<lparr>PossibleStates = [1], bIsCollapsed = True, FinalState = 1\<rparr>]"
    by auto
  from propagation_only_shrinks[where origins = "[0, 3]" and c = example and c' = c']
    propagation_only_shrinks[where M = 10 and I = 0 and rng = "sconst 3" and I' = 1
      and rng' = "sconst 3"
      and c = "single_cell\<lparr>Grid := [\<lparr>PossibleStates = [0, 1], bIsCollapsed = False, FinalState = - 1\<rparr>]\<rparr>"
      and c'' = "single_cell\<lparr>Grid := [\<lparr>PossibleStates = [1], bIsCollapsed = True, FinalState = 1\<rparr>]\<rparr>"]
    c' single_cell_loop
  show ?thesis by simp
qed

subsection \<open>Termination of the main loop and of propagation\<close>

text \<open>
  C5. For a configuration with positive width and height (whose iteration cap
  \<open>width * height * 10\<close> and whose tile count are in the \<^verbatim>\<open>int32\<close> range), \<^verbatim>\<open>GenerateGrid\<close>
  returns without a fault after at most \<open>width * height * 10\<close> iterations of the main loop;
  after a successful validation either every cell is collapsed at the end or the warning
  about the iteration cap has been logged. A call of \<^verbatim>\<open>PropagateConstraints\<close> returns
  without a fault on every component that satisfies the cell invariant and has a non-zero
  width; the loop inside it has no cap, it terminates because the sum of the candidate
  counts plus the queue length decreases.
\<close>

theorem GenerateGrid_terminates:
  assumes "0 < GridWidth c" and "0 < GridHeight c"
    and "GridWidth c * GridHeight c * 10 \<le> INT32_MAX"
    and "int (length (TileTypes c)) < INT32_MAX"
  shows "(\<exists>r. GenerateGrid rng c = Some r \<and>
              0 \<le> Iterations r \<and> Iterations r \<le> GridWidth c * GridHeight c * 10 \<and>
              (\<not> fst (ValidateEdgeRules c) \<or> IsGridFullyCollapsed (Final r) \<or>
               MaxIterationsReached (GridWidth c * GridHeight c * 10) \<in> set (Messages r))) \<and>
         (grid_ok d \<and> GridWidth d \<noteq> 0 \<longrightarrow> (\<exists>d'. PropagateConstraints i d = Some d'))"
proof (intro conjI impI)
  let ?M = "GridWidth c * GridHeight c * 10"
  have M: "0 \<le> ?M" using assms(1,2) by simp
  show "\<exists>r. GenerateGrid rng c = Some r \<and> 0 \<le> Iterations r \<and> Iterations r \<le> ?M \<and>
              (\<not> fst (ValidateEdgeRules c) \<or> IsGridFullyCollapsed (Final r) \<or>
               MaxIterationsReached ?M \<in> set (Messages r))"
  proof (cases "fst (ValidateEdgeRules c)")
    case False
    then show ?thesis using M
      by (cases "ValidateEdgeRules c") (simp add: GenerateGrid_def)
  next
    case True
    have "0 \<le> GridWidth c * GridHeight c" using assms(1,2) by simp
    then obtain c0 where init: "InitGrid c = Some c0" by (simp add: InitGrid_def)
    have "runnable c0"
      using InitGrid_runnable[OF init valid_nonempty[OF True] assms(4)] assms(1) by simp
    from SolveLoop_total[OF this M, of rng] obtain I' rng' c' where
      loop: "SolveLoop ?M 0 rng c0 = Some (I', rng', c')" "0 \<le> I'" "I' \<le> ?M"
        "IsGridFullyCollapsed c' \<or> ?M \<le> I'"
      by blast
    obtain Warnings where v: "ValidateEdgeRules c = (True, Warnings)"
      using True by (cases "ValidateEdgeRules c") simp
    have "GenerateGrid rng c =
        Some \<lparr>Final = c', Rand = rng', Iterations = I',
              Messages = Warnings @ (if ?M \<le> I' then [MaxIterationsReached ?M] else [])\<rparr>"
      using v init loop(1) by (simp add: GenerateGrid_def)
    with loop(2,3,4) show ?thesis by auto
  qed
next
  assume "grid_ok d \<and> GridWidth d \<noteq> 0"
  then show "\<exists>d'. PropagateConstraints i d = Some d'"
    using PropagateConstraints_total[of d i] by simp
qed

theorem GenerateGrid_terminates_witness:
  "0 < GridWidth single_cell \<and> 0 < GridHeight single_cell \<and>
   GridWidth single_cell * GridHeight single_cell * 10 \<le> INT32_MAX \<and>
   int (length (TileTypes single_cell)) < INT32_MAX \<and>
   fst (ValidateEdgeRules single_cell) \<and>
   (\<exists>r. GenerateGrid (sconst 3) single_cell = Some r \<and>
        0 \<le> Iterations r \<and> Iterations r \<le> 10 \<and> Iterations r = 1 \<and>
        IsGridFullyCollapsed (Final r)) \<and>
   grid_ok example \<and> GridWidth example \<noteq> 0 \<and>
   (\<exists>d'. PropagateConstraints 0 example = Some d')"
proof -
  have h: "0 < GridWidth single_cell" "0 < GridHeight single_cell"
    "GridWidth single_cell * GridHeight single_cell * 10 \<le> INT32_MAX"
    "int (length (TileTypes single_cell)) < INT32_MAX"
    by (simp_all add: single_cell_def INT32_MAX_def)
  have g: "grid_ok example \<and> GridWidth example \<noteq> 0"
    using example_grid_ok by (simp add: example_def)
  have f: "IsGridFullyCollapsed
      (single_cell\<lparr>Grid := [\<lparr>PossibleStates = [1], bIsCollapsed = True, FinalState = 1\<rparr>]\<rparr>)"
    by (simp add: IsGridFullyCollapsed_def)
  from GenerateGrid_terminates[OF h, of "sconst 3" example 0] h g f single_cell_run single_cell_valid
  show ?thesis by simp
qed

subsection \<open>Reproducible runs\<close>



subsection \<open>The cell invariant\<close>

text \<open>
  C10. The grid that \<^verbatim>\<open>GenerateGrid\<close> initialises satisfies the cell invariant for the tile
  count of the catalog (a collapsed cell has exactly its final state as candidate, a tile
  index; every candidate of every cell is a tile index), and \<^verbatim>\<open>CollapseCell\<close>,
  \<^verbatim>\<open>UpdateCellPossibilities\<close> and \<^verbatim>\<open>PropagateConstraints\<close> preserve it; hence it holds of the
  grid at the end of a run.
\<close>

theorem grid_invariant_preserved:
  "(InitGrid c = Some c0 \<longrightarrow> grid_ok c0) \<and>
   (grid_ok c \<longrightarrow> grid_ok (snd (CollapseCell i rng c))) \<and>
   (grid_ok c \<longrightarrow> grid_ok (snd (UpdateCellPossibilities i A c))) \<and>
   (grid_ok c \<and> PropagateConstraints i c = Some c' \<longrightarrow> grid_ok c') \<and>
   (fst (ValidateEdgeRules c) \<and> GenerateGrid rng c = Some r \<longrightarrow> grid_ok (Final r))"
proof (intro conjI impI)
  assume "InitGrid c = Some c0" then show "grid_ok c0" by (rule InitGrid_grid_ok)
next
  assume "grid_ok c" then show "grid_ok (snd (CollapseCell i rng c))" by (rule Collapse_grid_ok)
next
  assume "grid_ok c"
  then show "grid_ok (snd (UpdateCellPossibilities i A c))"
    using Update_grid_ok[of c i A] by (cases "UpdateCellPossibilities i A c") simp
next
  assume "grid_ok c \<and> PropagateConstraints i c = Some c'"
  then show "grid_ok c'"
    using PropagateConstraints_preserves[where P = grid_ok, of c i c'] Update_grid_ok by blast
next
  assume a: "fst (ValidateEdgeRules c) \<and> GenerateGrid rng c = Some r"
  then have "GenerateGrid rng c = Some r" by simp
  then show "grid_ok (Final r)"
  proof (cases rule: GenerateGrid_cases)
    case rejected
    with a show ?thesis by simp
  next
    case (solved c0)
    have "grid_ok c0" using solved(2) by (rule InitGrid_grid_ok)
    then show ?thesis
      using SolveLoop_preserves[where P = grid_ok, OF _ _ _ solved(3)]
        Collapse_grid_ok Update_grid_ok by blast
  qed
qed

theorem grid_invariant_preserved_witness:
  "InitGrid single_cell =
     Some (single_cell\<lparr>Grid := [\<lparr>PossibleStates = [0, 1], bIsCollapsed = False, FinalState = - 1\<rparr>]\<rparr>) \<and>
   grid_ok (single_cell\<lparr>Grid := [\<lparr>PossibleStates = [0, 1], bIsCollapsed = False, FinalState = - 1\<rparr>]\<rparr>) \<and>
   grid_ok example \<and>
   grid_ok (snd (CollapseCell 3 (sconst 3) example)) \<and>
   grid_ok (snd (UpdateCellPossibilities 1 [1] example)) \<and>
   (\<exists>c'. PropagateConstraints 0 example = Some c' \<and> grid_ok c') \<and>
   fst (ValidateEdgeRules single_cell) \<and>
   (\<exists>r. GenerateGrid (sconst 3) single_cell = Some r \<and> grid_ok (Final r))"
proof -
  obtain c' where c': "PropagateConstraints 0 example = Some c'"
    using example_propagated by auto
  let ?c0 = "single_cell\<lparr>Grid := [\<lparr>PossibleStates = [0, 1], bIsCollapsed = False, FinalState = - 1\<rparr>]\<rparr>"
  let ?r = "\<lparr>Final = single_cell\<lparr>Grid := [\<lparr>PossibleStates = [1], bIsCollapsed = True, FinalState = 1\<rparr>]\<rparr>,
           Rand = sconst 3, Iterations = 1, Messages = []\<rparr>"
  from grid_invariant_preserved[where c = example and i = 3 and rng = "sconst 3"]
       grid_invariant_preserved[where c = example and i = 1 and A = "[1]"]
       grid_invariant_preserved[where c = example and i = 0 and c' = c']
       grid_invariant_preserved[where c = single_cell and ?c0.0 = ?c0 and rng = "sconst 3" and r = ?r]
       single_cell_init example_grid_ok c' single_cell_valid single_cell_run
  show ?thesis by simp
qed

end
